theory Spec2Isabelle
  imports Complex_Main "HOL-Library.Word"
begin

section \<open>Lock manager (src/services/lockService.js)\<close>

text \<open>
  A row of the table \<open>processing_locks\<close>. Times are milliseconds since the epoch.
\<close>

record lock_row =
  resource_id :: string
  lock_id :: string
  expires_at :: nat

text \<open>
  The state of one \<open>DistributedLockService\<close> instance (one per process): the map
  \<open>locks\<close> from a resource to the lock id this process holds for it, and the map
  \<open>lockTimers\<close> from a resource to the time its auto-release timer fires.
\<close>

record lock_service =
  locks :: "string \<rightharpoonup> string"
  lockTimers :: "string \<rightharpoonup> nat"

text \<open>
  \<open>supabase.from('processing_locks').delete().eq('resource_id', r).eq('lock_id', l)\<close>:
  the rows matching both filters are removed, all others stay.
\<close>

definition delete_lock_rows :: "string \<Rightarrow> string \<Rightarrow> lock_row list \<Rightarrow> lock_row list" where
  "delete_lock_rows r l rows = filter (\<lambda>row. \<not> (resource_id row = r \<and> lock_id row = l)) rows"

text \<open>
  \<open>release(resourceId)\<close>. The flag \<open>db_error\<close> says whether the store answers the delete
  with an error (or throws); in both cases the function returns false and leaves the
  local state alone. A missing (or empty, hence falsy) local lock id returns false at
  once. The result is the returned boolean, the new local state and the new table.
\<close>

definition release ::
  "bool \<Rightarrow> string \<Rightarrow> lock_service \<Rightarrow> lock_row list \<Rightarrow> bool \<times> lock_service \<times> lock_row list" where
  "release db_error resourceId svc rows =
     (case locks svc resourceId of
        None \<Rightarrow> (False, svc, rows)
      | Some lockId \<Rightarrow>
          if lockId = [] then (False, svc, rows)
          else if db_error then (False, svc, rows)
          else (True,
                svc\<lparr>locks := (locks svc)(resourceId := None),
                    lockTimers := (lockTimers svc)(resourceId := None)\<rparr>,
                delete_lock_rows resourceId lockId rows))"

text \<open>
  \<open>checkAndCleanExpiredLock(resourceId)\<close>: \<open>.single()\<close> answers with an error unless exactly
  one row matches, and then the function returns null (\<open>None\<close>). An expired row
  (\<open>expiresAt < now\<close>) is deleted and the result is true; a live one gives false.
\<close>

definition checkAndCleanExpiredLock ::
  "nat \<Rightarrow> string \<Rightarrow> lock_row list \<Rightarrow> bool option \<times> lock_row list" where
  "checkAndCleanExpiredLock now resourceId rows =
     (case filter (\<lambda>row. resource_id row = resourceId) rows of
        [existingLock] \<Rightarrow>
          if expires_at existingLock < now
          then (Some True, delete_lock_rows resourceId (lock_id existingLock) rows)
          else (Some False, rows)
      | _ \<Rightarrow> (None, rows))"

text \<open>
  \<open>acquire(resourceId, ttlSeconds)\<close>. The insert fails with a unique violation (23505) when
  a row for the resource exists. \<open>nonce k\<close> stands for the text
  \<open>${Date.now()}-${Math.random()}\<close> drawn by the \<open>k\<close>-th attempt; the retry after cleaning an
  expired lock is the source's recursive call. The auto-release timer fires
  \<open>(ttlSeconds - 10) * 1000\<close> ms after the call.
\<close>

function acquire ::
  "(nat \<Rightarrow> string) \<Rightarrow> nat \<Rightarrow> nat \<Rightarrow> string \<Rightarrow> nat \<Rightarrow> lock_service \<Rightarrow> lock_row list
     \<Rightarrow> string option \<times> lock_service \<times> lock_row list" where
  "acquire nonce k now resourceId ttlSeconds svc rows =
     (let lockId = resourceId @ ''-'' @ nonce k;
          expiresAt = now + ttlSeconds * 1000
      in if \<exists>row \<in> set rows. resource_id row = resourceId
         then (case checkAndCleanExpiredLock now resourceId rows of
                 (Some True, rows') \<Rightarrow> acquire nonce (Suc k) now resourceId ttlSeconds svc rows'
               | (_, rows') \<Rightarrow> (None, svc, rows'))
         else (Some lockId,
               svc\<lparr>locks := (locks svc)(resourceId \<mapsto> lockId),
                   lockTimers := (lockTimers svc)(resourceId \<mapsto> now + (ttlSeconds - 10) * 1000)\<rparr>,
               rows @ [\<lparr>resource_id = resourceId, lock_id = lockId, expires_at = expiresAt\<rparr>]))"
  by pat_completeness auto

lemma checkAndClean_true_rows:
  assumes "checkAndCleanExpiredLock now r rows = (Some True, rows')"
  shows "filter (\<lambda>row. resource_id row = r) rows' = []"
proof -
  obtain e where e: "filter (\<lambda>row. resource_id row = r) rows = [e]"
    and rows': "rows' = delete_lock_rows r (lock_id e) rows"
    using assms
    by (auto simp: checkAndCleanExpiredLock_def split: list.splits if_splits)
  have "\<forall>row \<in> set rows. resource_id row = r \<longrightarrow> row = e"
  proof (intro ballI impI)
    fix row assume "row \<in> set rows" "resource_id row = r"
    then have "row \<in> set (filter (\<lambda>row. resource_id row = r) rows)" by simp
    then show "row = e" by (simp add: e)
  qed
  then show ?thesis
    by (auto simp: rows' delete_lock_rows_def filter_empty_conv)
qed

termination acquire
  apply (relation "measure (\<lambda>(nonce, k, now, r, ttl, svc, rows). length (filter (\<lambda>row. resource_id row = r) rows))")
   apply simp
  subgoal for nonce k now resourceId ttlSeconds svc rows x xa xb y ya
    using checkAndClean_true_rows [of now resourceId rows y]
    by (auto simp: filter_empty_conv)
  done

lemma acquire_Some_row:
  "acquire nonce k now r ttl svc rows = (Some l, svc', rows') \<Longrightarrow>
     (\<exists>e. rows' = filter (\<lambda>row. resource_id row \<noteq> r) rows @
        [\<lparr>resource_id = r, lock_id = l, expires_at = e\<rparr>]) \<and> locks svc' r = Some l \<and> l \<noteq> []"
proof (induction nonce k now r ttl svc rows rule: acquire.induct)
  case (1 nonce k now resourceId ttlSeconds svc rows)
  note acquire.simps [simp del]
  show ?case
  proof (cases "\<exists>row \<in> set rows. resource_id row = resourceId")
    case False
    then have "filter (\<lambda>row. resource_id row \<noteq> resourceId) rows = rows"
      by (auto simp: filter_id_conv)
    with False "1.prems" show ?thesis
      by (auto simp: acquire.simps [of nonce k now resourceId ttlSeconds svc rows] Let_def)
  next
    case True
    obtain res rows1 where c: "checkAndCleanExpiredLock now resourceId rows = (res, rows1)"
      by (cases "checkAndCleanExpiredLock now resourceId rows")
    with True "1.prems" have res: "res = Some True"
      and rec: "acquire nonce (Suc k) now resourceId ttlSeconds svc rows1 = (Some l, svc', rows')"
      by (auto simp: acquire.simps [of nonce k now resourceId ttlSeconds svc rows] Let_def
               split: option.splits bool.splits)
    have ih: "(\<exists>e. rows' = filter (\<lambda>row. resource_id row \<noteq> resourceId) rows1 @
                [\<lparr>resource_id = resourceId, lock_id = l, expires_at = e\<rparr>]) \<and>
              locks svc' resourceId = Some l \<and> l \<noteq> []"
      using "1.IH" [OF refl refl True c [symmetric] res _ rec] by simp
    obtain e where e: "filter (\<lambda>row. resource_id row = resourceId) rows = [e]"
      and rows1: "rows1 = delete_lock_rows resourceId (lock_id e) rows"
      using c res
      by (auto simp: checkAndCleanExpiredLock_def split: list.splits if_splits)
    have "filter (\<lambda>row. resource_id row \<noteq> resourceId) rows1 =
          filter (\<lambda>row. resource_id row \<noteq> resourceId) rows"
      by (auto simp: rows1 delete_lock_rows_def intro: filter_cong)
    with ih show ?thesis by simp
  qed
qed

lemma release_rows:
  "release db_error r svc rows = (ok, svc', rows') \<Longrightarrow>
     rows' = rows \<or> (\<exists>l. locks svc r = Some l \<and> rows' = delete_lock_rows r l rows)"
  by (auto simp: release_def split: option.splits if_splits)

text \<open>
  A scenario for the lock manager, all within the one \<open>lockService\<close> instance of a
  process. Task 1 acquires \<open>video-X\<close> at time 0 for 600 s (lease A). Its auto-release timer
  fires at 590000 and releases the lock while task 1 is still working. At 600000 task 2
  acquires the same resource (lease B), which overwrites the entry of \<open>this.locks\<close>.
\<close>

definition example_rowA :: lock_row where
  "example_rowA = \<lparr>resource_id = ''video-X'', lock_id = ''video-X-n1'', expires_at = 600000\<rparr>"

definition example_rowB :: lock_row where
  "example_rowB = \<lparr>resource_id = ''video-X'', lock_id = ''video-X-n2'', expires_at = 1200000\<rparr>"

definition example_svc0 :: lock_service where
  "example_svc0 = \<lparr>locks = Map.empty, lockTimers = Map.empty\<rparr>"

definition example_svcA :: lock_service where
  "example_svcA = \<lparr>locks = [''video-X'' \<mapsto> ''video-X-n1''],
                    lockTimers = [''video-X'' \<mapsto> 590000]\<rparr>"

definition example_svcB :: lock_service where
  "example_svcB = \<lparr>locks = [''video-X'' \<mapsto> ''video-X-n2''],
                    lockTimers = [''video-X'' \<mapsto> 1190000]\<rparr>"

lemma example_lock_run:
  "acquire (\<lambda>_. ''n1'') 0 0 ''video-X'' 600 example_svc0 [] =
     (Some ''video-X-n1'', example_svcA, [example_rowA])"
  "release False ''video-X'' example_svcA [example_rowA] = (True, example_svc0, [])"
  "acquire (\<lambda>_. ''n2'') 0 600000 ''video-X'' 600 example_svc0 [] =
     (Some ''video-X-n2'', example_svcB, [example_rowB])"
  "release False ''video-X'' example_svcB [example_rowB] = (True, example_svc0, [])"
  "release False ''video-X'' example_svcA [example_rowB] = (True, example_svc0, [example_rowB])"
proof -
  show "acquire (\<lambda>_. ''n1'') 0 0 ''video-X'' 600 example_svc0 [] =
     (Some ''video-X-n1'', example_svcA, [example_rowA])"
    by (simp add: example_svc0_def example_svcA_def example_rowA_def Let_def)
  show "release False ''video-X'' example_svcA [example_rowA] = (True, example_svc0, [])"
    by (simp add: release_def example_svc0_def example_svcA_def example_rowA_def
        delete_lock_rows_def)
  show "acquire (\<lambda>_. ''n2'') 0 600000 ''video-X'' 600 example_svc0 [] =
     (Some ''video-X-n2'', example_svcB, [example_rowB])"
    by (simp add: example_svc0_def example_svcB_def example_rowB_def Let_def)
  show "release False ''video-X'' example_svcB [example_rowB] = (True, example_svc0, [])"
    by (simp add: release_def example_svc0_def example_svcB_def example_rowB_def
        delete_lock_rows_def)
  show "release False ''video-X'' example_svcA [example_rowB] =
     (True, example_svc0, [example_rowB])"
    by (simp add: release_def example_svc0_def example_svcA_def example_rowB_def
        delete_lock_rows_def)
qed

text \<open>
  C10 as stated fails. In the run above task 1, which held the older lease A, finishes
  after task 2 has acquired lease B and calls \<open>release('video-X')\<close> in its \<open>finally\<close>.
  \<open>release\<close> takes no lease: it looks up the lock id recorded for the resource, which is
  now B, and deletes B's row while task 2 is still working.
\<close>

theorem release_fencing_counterexample:
  "acquire (\<lambda>_. ''n1'') 0 0 ''video-X'' 600 example_svc0 [] =
     (Some ''video-X-n1'', example_svcA, [example_rowA]) \<and>
   release False ''video-X'' example_svcA [example_rowA] = (True, example_svc0, []) \<and>
   acquire (\<lambda>_. ''n2'') 0 600000 ''video-X'' 600 example_svc0 [] =
     (Some ''video-X-n2'', example_svcB, [example_rowB]) \<and>
   release False ''video-X'' example_svcB [example_rowB] = (True, example_svc0, []) \<and>
   example_rowB \<notin> set (snd (snd (release False ''video-X'' example_svcB [example_rowB])))"
  unfolding example_lock_run by simp

text \<open>
  C10 as amended. For every resource, every state of a lock-service instance and every
  lock table: \<open>release\<close> deletes at most rows of the released resource whose \<open>lock_id\<close> is
  the lease that the releasing instance currently records for the resource, so a row held
  under any other lease (a lease of another instance) stays. The record is kept per
  resource, not per caller: when the instance's own newer \<open>acquire\<close> has produced lease B,
  a \<open>release\<close> of the resource on that instance, by whichever task, deletes B's row
  (unless the store fails), and no row of the resource is left.
\<close>

theorem release_fencing:
  "release db_error r svc rows = (ok, svc', rows') \<Longrightarrow>
     set rows' \<subseteq> set rows \<and>
     (\<forall>row \<in> set rows. row \<notin> set rows' \<longrightarrow>
        resource_id row = r \<and> locks svc r = Some (lock_id row)) \<and>
     (\<forall>row \<in> set rows. locks svc r \<noteq> Some (lock_id row) \<longrightarrow> row \<in> set rows') \<and>
     (\<forall>nonce k now ttl svc0 rows0 leaseB.
        acquire nonce k now r ttl svc0 rows0 = (Some leaseB, svc, rows) \<and> \<not> db_error \<longrightarrow>
        ok \<and> locks svc r = Some leaseB \<and> (\<forall>row \<in> set rows'. resource_id row \<noteq> r))"
proof -
  assume rel: "release db_error r svc rows = (ok, svc', rows')"
  have frame: "set rows' \<subseteq> set rows \<and>
     (\<forall>row \<in> set rows. row \<notin> set rows' \<longrightarrow>
        resource_id row = r \<and> locks svc r = Some (lock_id row))"
    using release_rows [OF rel] by (auto simp: delete_lock_rows_def)
  then have others: "\<forall>row \<in> set rows. locks svc r \<noteq> Some (lock_id row) \<longrightarrow> row \<in> set rows'"
    by blast
  have same: "ok \<and> locks svc r = Some leaseB \<and> (\<forall>row \<in> set rows'. resource_id row \<noteq> r)"
    if acq: "acquire nonce k now r ttl svc0 rows0 = (Some leaseB, svc, rows)"
      and ne: "\<not> db_error"
    for nonce k now ttl svc0 rows0 leaseB
  proof -
    from acquire_Some_row [OF acq] obtain e where
      rows: "rows = filter (\<lambda>row. resource_id row \<noteq> r) rows0 @
               [\<lparr>resource_id = r, lock_id = leaseB, expires_at = e\<rparr>]"
      and held: "locks svc r = Some leaseB" and l: "leaseB \<noteq> []"
      by auto
    from rel held l ne have "ok" and "rows' = delete_lock_rows r leaseB rows"
      by (auto simp: release_def)
    then show ?thesis
      using held by (auto simp: rows delete_lock_rows_def)
  qed
  from frame others same show ?thesis by blast
qed

theorem release_fencing_witness:
  "release False ''video-X'' example_svcA [example_rowB] = (True, example_svc0, [example_rowB]) \<and>
   locks example_svcA ''video-X'' = Some ''video-X-n1'' \<and>
   example_rowB \<in> set [example_rowB] \<and>
   acquire (\<lambda>_. ''n2'') 0 600000 ''video-X'' 600 example_svc0 [] =
     (Some ''video-X-n2'', example_svcB, [example_rowB]) \<and>
   release False ''video-X'' example_svcB [example_rowB] = (True, example_svc0, []) \<and>
   locks example_svcB ''video-X'' = Some ''video-X-n2''"
proof -
  have other: "locks example_svcA ''video-X'' \<noteq> Some (lock_id example_rowB)"
    and heldA: "locks example_svcA ''video-X'' = Some ''video-X-n1''"
    by (simp_all add: example_svcA_def example_rowB_def)
  from release_fencing [OF example_lock_run(5)] other
  have kept: "example_rowB \<in> set [example_rowB]"
    by simp
  from release_fencing [OF example_lock_run(4)] example_lock_run(3)
  have "locks example_svcB ''video-X'' = Some ''video-X-n2''"
    by blast
  with kept heldA example_lock_run show ?thesis by simp
qed

section \<open>Authentication and rate limiting (middleware/auth.js, middleware/rateLimit.js)\<close>

text \<open>
  \<open>req.user\<close> as the middlewares read and write it. \<open>authMiddleware\<close> sets no
  \<open>premium\<close> field, so it reads as undefined (false) there.
\<close>

record user_info =
  user_id :: string
  user_email :: "string option"
  isApiKey :: bool
  premium :: bool

text \<open>
  The parts of an Express request the two middlewares read: the (lower-cased) header map,
  \<open>req.user\<close>, \<open>req.connection?.remoteAddress\<close> and \<open>req.ip\<close>.
\<close>

record request =
  headers :: "string \<rightharpoonup> string"
  user :: "user_info option"
  remoteAddress :: "string option"
  ip :: "string option"

text \<open>The JSON bodies the middlewares send, and a header value (a number or a text).\<close>

datatype body =
    ErrorBody string
  | RateLimitBody string string "nat option" "string option" "int option"

datatype header_value = HNum nat | HText string | HInfinity | HTime int

text \<open>A middleware either calls \<open>next()\<close> or ends the request with a status and a body.\<close>

datatype outcome = Next | Respond nat body

text \<open>
  \<open>authMiddleware\<close>. \<open>env_key\<close> is \<open>process.env.BACKEND_API_KEY\<close> (undefined when unset);
  the comparison \<open>!==\<close> is on the header value, itself undefined when the header is
  absent. \<open>userId || 'api-client'\<close> takes the default for a missing or empty header.
\<close>

definition authMiddleware :: "string option \<Rightarrow> request \<Rightarrow> outcome \<times> request" where
  "authMiddleware env_key req =
     (let apiKey = headers req ''x-api-key'' in
      if apiKey \<noteq> env_key then (Respond 401 (ErrorBody ''Unauthorized''), req)
      else
        let userId = headers req ''x-user-id'';
            userEmail = headers req ''x-user-email''
        in (Next,
            req\<lparr>user := Some \<lparr>user_id = (case userId of None \<Rightarrow> ''api-client''
                                              | Some u \<Rightarrow> if u = [] then ''api-client'' else u),
                                 user_email = userEmail,
                                 isApiKey = True,
                                 premium = False\<rparr>\<rparr>))"

text \<open>
  The table \<open>RATE_LIMITS\<close>: for a user class and an action the hourly and the daily cap,
  \<open>None\<close> for a null cap; the outer \<open>None\<close> is a missing entry.
\<close>

definition RATE_LIMITS :: "string \<Rightarrow> string \<Rightarrow> (nat option \<times> nat option) option" where
  "RATE_LIMITS userType action =
     (if userType = ''anonymous'' then
        (if action = ''chat'' then Some (Some 5, Some 5)
         else if action = ''video_upload'' then Some (None, Some 2)
         else if action = ''channel_process'' then Some (None, Some 0)
         else None)
      else if userType = ''user'' then
        (if action = ''chat'' then Some (Some 5, Some 5)
         else if action = ''video_upload'' then Some (None, Some 10)
         else if action = ''channel_process'' then Some (None, Some 1)
         else None)
      else if userType = ''premium'' then
        (if action = ''chat'' then Some (Some 50, Some 200)
         else if action = ''video_upload'' then Some (None, Some 50)
         else if action = ''channel_process'' then Some (None, Some 10)
         else None)
      else None)"

text \<open>A row of the table \<open>rate_limits\<close>; times are milliseconds since the epoch.\<close>

record rate_event =
  event_identifier :: string
  event_action :: string
  created_at :: int

text \<open>An entry of the limiter's in-memory cache (\<open>{count, expires, resetAt}\<close>).\<close>

record cache_entry =
  cached_count :: nat
  cached_expires :: int
  cached_resetAt :: int

text \<open>
  The limiter's state: its cache, a JavaScript \<open>Map\<close> kept as an association list in
  insertion order, and the table \<open>rate_limits\<close> of the store.
\<close>

record limiter =
  cache :: "(string \<times> cache_entry) list"
  rate_limits :: "rate_event list"

text \<open>\<open>Map.prototype.set\<close>: an existing key keeps its place, a new key goes last.\<close>

fun map_set :: "'k \<Rightarrow> 'v \<Rightarrow> ('k \<times> 'v) list \<Rightarrow> ('k \<times> 'v) list" where
  "map_set k v [] = [(k, v)]"
| "map_set k v ((k', v') # m) = (if k' = k then (k, v) # m else (k', v') # map_set k v m)"

definition map_delete :: "'k \<Rightarrow> ('k \<times> 'v) list \<Rightarrow> ('k \<times> 'v) list" where
  "map_delete k m = filter (\<lambda>(k', v). k' \<noteq> k) m"

text \<open>What \<open>checkLimit\<close> and \<open>checkWindowLimit\<close> return; \<open>remaining\<close> may be null or Infinity.\<close>

datatype remaining_value = RNull | RNum nat | RInfinity

record limit_result =
  allowed :: bool
  remaining :: remaining_value
  limit :: "nat option"
  window :: "string option"
  resetAt :: "int option"

definition getCacheKey :: "string \<Rightarrow> string \<Rightarrow> string \<Rightarrow> string" where
  "getCacheKey ident action win = ident @ '':'' @ action @ '':'' @ win"

text \<open>
  \<open>checkWindowLimit\<close>. The window is taken as exactly one hour or one day before \<open>now\<close>
  (the source moves the local-time hour or date field back by one). \<open>count_error\<close> says
  whether the store answers the count with an error: the limiter then fails open and
  returns \<open>{allowed: true, remaining: limit}\<close> with no other field.
\<close>

definition checkWindowLimit ::
  "bool \<Rightarrow> string \<Rightarrow> string \<Rightarrow> string \<Rightarrow> nat \<Rightarrow> int \<Rightarrow> limiter \<Rightarrow> limit_result \<times> limiter" where
  "checkWindowLimit count_error ident action win cap now st =
     (let windowStart = now - (if win = ''hour'' then 3600000 else 86400000);
          cacheKey = getCacheKey ident action win;
          hit = (case map_of (cache st) cacheKey of
                   Some cached \<Rightarrow> if cached_expires cached > now then Some cached else None
                 | None \<Rightarrow> None)
      in case hit of
           Some cached \<Rightarrow>
             (let rem = cap - cached_count cached
              in (\<lparr>allowed = rem > 0, remaining = RNum rem, limit = Some cap,
                   window = Some win, resetAt = Some (cached_resetAt cached)\<rparr>, st))
         | None \<Rightarrow>
             if count_error
             then (\<lparr>allowed = True, remaining = RNum cap, limit = None,
                    window = None, resetAt = None\<rparr>, st)
             else
               (let usageCount = length (filter (\<lambda>e. event_identifier e = ident \<and>
                                     event_action e = action \<and> created_at e \<ge> windowStart)
                                   (rate_limits st));
                    rem = cap - usageCount;
                    reset = windowStart + (if win = ''hour'' then 3600000 else 86400000);
                    cache1 = map_set cacheKey
                               \<lparr>cached_count = usageCount, cached_expires = now + 60000,
                                cached_resetAt = reset\<rparr> (cache st);
                    cache2 = (if length cache1 > 1000 then map_delete (fst (hd cache1)) cache1
                              else cache1)
                in (\<lparr>allowed = rem > 0, remaining = RNum rem, limit = Some cap,
                     window = Some win, resetAt = Some reset\<rparr>,
                    st\<lparr>cache := cache2\<rparr>)))"

text \<open>
  The reducer of \<open>checkLimit\<close>, picking the most restrictive result. \<open><\<close> on the remaining
  counts compares numbers, with null read as 0 and Infinity above every number.
\<close>

fun remaining_less :: "remaining_value \<Rightarrow> remaining_value \<Rightarrow> bool" where
  "remaining_less RInfinity _ = False"
| "remaining_less _ RInfinity = True"
| "remaining_less RNull RNull = False"
| "remaining_less RNull (RNum b) = (0 < b)"
| "remaining_less (RNum a) RNull = False"
| "remaining_less (RNum a) (RNum b) = (a < b)"

definition mostRestrictive :: "limit_result \<Rightarrow> limit_result \<Rightarrow> limit_result" where
  "mostRestrictive prev current =
     (if \<not> allowed current then current
      else if \<not> allowed prev then prev
      else if remaining_less (remaining current) (remaining prev) then current
      else prev)"

text \<open>
  \<open>checkLimit\<close>: no table entry gives \<open>{allowed: true, remaining: null}\<close>; else the hourly
  window is checked when its cap is not null, then the daily one, and the results are
  reduced from \<open>{allowed: true, remaining: Infinity}\<close>.
\<close>

definition checkLimit ::
  "bool \<Rightarrow> string \<Rightarrow> string \<Rightarrow> string \<Rightarrow> int \<Rightarrow> limiter \<Rightarrow> limit_result \<times> limiter" where
  "checkLimit count_error ident action userType now st =
     (case RATE_LIMITS userType action of
        None \<Rightarrow> (\<lparr>allowed = True, remaining = RNull, limit = None, window = None,
                   resetAt = None\<rparr>, st)
      | Some (hourly, daily) \<Rightarrow>
          (let (results1, st1) =
                 (case hourly of
                    None \<Rightarrow> ([], st)
                  | Some h \<Rightarrow> (let (r, s) = checkWindowLimit count_error ident action ''hour'' h now st
                              in ([r], s)));
               (results2, st2) =
                 (case daily of
                    None \<Rightarrow> (results1, st1)
                  | Some d \<Rightarrow> (let (r, s) = checkWindowLimit count_error ident action ''day'' d now st1
                              in (results1 @ [r], s)))
           in (foldl mostRestrictive
                 \<lparr>allowed = True, remaining = RInfinity, limit = None, window = None,
                  resetAt = None\<rparr> results2,
               st2)))"

text \<open>
  \<open>recordUsage\<close>: one row is inserted (unless the store answers with an error, which is
  only logged) and both cache keys of the pair are deleted.
\<close>

definition recordUsage :: "bool \<Rightarrow> string \<Rightarrow> string \<Rightarrow> int \<Rightarrow> limiter \<Rightarrow> limiter" where
  "recordUsage insert_error ident action now st =
     st\<lparr>rate_limits := (if insert_error then rate_limits st
                        else rate_limits st @
                          [\<lparr>event_identifier = ident, event_action = action, created_at = now\<rparr>]),
        cache := map_delete (getCacheKey ident action ''day'')
                   (map_delete (getCacheKey ident action ''hour'') (cache st))\<rparr>"

text \<open>
  \<open>getClientIp\<close>: the Cloudflare header, else the first comma-separated item of
  \<open>x-forwarded-for\<close> trimmed of white space, else \<open>x-real-ip\<close>, else the socket address,
  \<open>req.ip\<close> or \<open>'unknown'\<close>. An empty text is falsy.
\<close>

definition is_space :: "char \<Rightarrow> bool" where
  "is_space c = (c \<in> set [CHR '' '', CHR 0x09, CHR 0x0A, CHR 0x0B, CHR 0x0C, CHR 0x0D, CHR 0xA0])"

definition trim :: "string \<Rightarrow> string" where
  "trim s = rev (dropWhile is_space (rev (dropWhile is_space s)))"

definition truthy :: "string option \<Rightarrow> string option" where
  "truthy v = (case v of Some s \<Rightarrow> if s = [] then None else Some s | None \<Rightarrow> None)"

definition getClientIp :: "request \<Rightarrow> string" where
  "getClientIp req =
     (case truthy (headers req ''cf-connecting-ip'') of
        Some cloudflare \<Rightarrow> cloudflare
      | None \<Rightarrow>
          (case truthy (headers req ''x-forwarded-for'') of
             Some forwarded \<Rightarrow> trim (takeWhile (\<lambda>c. c \<noteq> CHR '','') forwarded)
           | None \<Rightarrow>
               (case truthy (headers req ''x-real-ip'') of
                  Some realIp \<Rightarrow> realIp
                | None \<Rightarrow>
                    (case truthy (remoteAddress req) of
                       Some a \<Rightarrow> a
                     | None \<Rightarrow> (case truthy (ip req) of Some a \<Rightarrow> a | None \<Rightarrow> ''unknown'')))))"

text \<open>
  The two headers \<open>result.limit || 'unlimited'\<close> and \<open>result.remaining || 'unlimited'\<close>:
  \<open>||\<close> takes the default for every falsy left side, the number 0 included.
\<close>

definition limit_header :: "nat option \<Rightarrow> header_value" where
  "limit_header l = (case l of None \<Rightarrow> HText ''unlimited''
                     | Some n \<Rightarrow> if n = 0 then HText ''unlimited'' else HNum n)"

definition remaining_header :: "remaining_value \<Rightarrow> header_value" where
  "remaining_header r = (case r of RNull \<Rightarrow> HText ''unlimited''
                         | RNum n \<Rightarrow> if n = 0 then HText ''unlimited'' else HNum n
                         | RInfinity \<Rightarrow> HInfinity)"

text \<open>
  \<open>rateLimitMiddleware(action)\<close> on a request: the outcome, the response headers set (in
  order) and the limiter's new state. \<open>count_error\<close> and \<open>insert_error\<close> are the store's
  answers; \<open>now\<close> is the clock read by the check and \<open>now_rec\<close> the one read by
  \<open>recordUsage\<close>.
\<close>

definition rateLimitMiddleware ::
  "string \<Rightarrow> bool \<Rightarrow> bool \<Rightarrow> int \<Rightarrow> int \<Rightarrow> request \<Rightarrow> limiter
     \<Rightarrow> outcome \<times> (string \<times> header_value) list \<times> limiter" where
  "rateLimitMiddleware action count_error insert_error now now_rec req st =
     (if (case user req of Some u \<Rightarrow> isApiKey u | None \<Rightarrow> False) then (Next, [], st)
      else
        let (ident, userType) =
              (case user req of
                 Some u \<Rightarrow> (''user:'' @ user_id u, if premium u then ''premium'' else ''user'')
               | None \<Rightarrow> (''ip:'' @ getClientIp req, ''anonymous''));
            (result, st1) = checkLimit count_error ident action userType now st;
            hdrs = [(''X-RateLimit-Limit'', limit_header (limit result)),
                    (''X-RateLimit-Remaining'', remaining_header (remaining result))] @
                   (case resetAt result of
                      Some t \<Rightarrow> [(''X-RateLimit-Reset'', HTime t)]
                    | None \<Rightarrow> [])
        in if \<not> allowed result
           then (Respond 429
                   (RateLimitBody ''Rate limit exceeded''
                      (''Too many '' @ action @ '' requests. Please try again later.'')
                      (limit result) (window result) (resetAt result)),
                 hdrs, st1)
           else (Next, hdrs, recordUsage insert_error ident action now_rec st1))"

text \<open>
  A rate-limited route as routes/api.js and routes/video.js mount it,
  \<open>router.post(path, authMiddleware, rateLimitMiddleware(action), handler)\<close>: Express runs
  the second middleware on the request as the first left it, and only when the first
  called \<open>next()\<close>. Every mount of \<open>rateLimitMiddleware\<close> in the program has this form.
\<close>

definition rate_limited_route ::
  "string option \<Rightarrow> string \<Rightarrow> bool \<Rightarrow> bool \<Rightarrow> int \<Rightarrow> int \<Rightarrow> request \<Rightarrow> limiter
     \<Rightarrow> outcome \<times> (string \<times> header_value) list \<times> limiter" where
  "rate_limited_route env_key action count_error insert_error now now_rec req st =
     (case authMiddleware env_key req of
        (Respond status b, req') \<Rightarrow> (Respond status b, [], st)
      | (Next, req') \<Rightarrow> rateLimitMiddleware action count_error insert_error now now_rec req' st)"

text \<open>
  A caller's request as it arrives with its API key and the header \<open>x-user-id: u1\<close>; a
  request whose \<open>req.user\<close> carries no \<open>isApiKey\<close> flag and no \<open>premium\<close> flag, as
  \<open>rateLimitMiddleware\<close> would see a user-class caller; an empty limiter; and a run of
  successive \<open>chat\<close> calls through the route at the given clock readings, threading the
  limiter's state.
\<close>

definition example_user_req :: request where
  "example_user_req = \<lparr>headers = Map.empty,
      user = Some \<lparr>user_id = ''u1'', user_email = None, isApiKey = False, premium = False\<rparr>,
      remoteAddress = None, ip = None\<rparr>"

definition example_key_req :: request where
  "example_key_req = \<lparr>headers = [''x-api-key'' \<mapsto> ''secret'', ''x-user-id'' \<mapsto> ''u1''],
      user = None, remoteAddress = None, ip = None\<rparr>"

definition example_limiter0 :: limiter where
  "example_limiter0 = \<lparr>cache = [], rate_limits = []\<rparr>"

text \<open>A limiter whose table already holds five \<open>chat\<close> events of user \<open>u1\<close>.\<close>

definition example_limiter5 :: limiter where
  "example_limiter5 = \<lparr>cache = [],
     rate_limits = map (\<lambda>t. \<lparr>event_identifier = ''user:u1'', event_action = ''chat'',
                              created_at = t\<rparr>)
                     [1000000000, 1000001000, 1000002000, 1000003000, 1000004000]\<rparr>"

fun chat_calls ::
  "string option \<Rightarrow> int list \<Rightarrow> request \<Rightarrow> limiter
     \<Rightarrow> (outcome \<times> (string \<times> header_value) list) list" where
  "chat_calls env_key [] req st = []"
| "chat_calls env_key (t # ts) req st =
     (case rate_limited_route env_key ''chat'' False False t t req st of
        (out, hdrs, st') \<Rightarrow> (out, hdrs) # chat_calls env_key ts req st')"

lemma checkWindowLimit_denied:
  "checkWindowLimit count_error ident action win cap now st = (r, st') \<Longrightarrow> \<not> allowed r \<Longrightarrow>
     remaining r = RNum 0 \<and> limit r = Some cap \<and> window r = Some win \<and> (\<exists>t. resetAt r = Some t)"
  by (auto simp: checkWindowLimit_def Let_def split: option.splits if_splits)

lemma foldl_mostRestrictive:
  "foldl mostRestrictive init rs = init \<or> foldl mostRestrictive init rs \<in> set rs"
proof (induction rs arbitrary: init)
  case Nil
  then show ?case by simp
next
  case (Cons r rs)
  have "mostRestrictive init r = init \<or> mostRestrictive init r = r"
    by (simp add: mostRestrictive_def)
  with Cons.IH [of "mostRestrictive init r"] show ?case
    by auto
qed

lemma checkLimit_denied:
  assumes c: "checkLimit count_error ident action userType now st = (r, st')"
    and d: "\<not> allowed r"
  shows "remaining r = RNum 0 \<and>
     (\<exists>cap win t. limit r = Some cap \<and> window r = Some win \<and> resetAt r = Some t \<and>
        (win = ''hour'' \<or> win = ''day''))"
proof (cases "RATE_LIMITS userType action")
  case None
  with c d show ?thesis by (auto simp: checkLimit_def)
next
  case (Some caps)
  obtain hourly daily where caps: "caps = (hourly, daily)" by (cases caps)
  define init where "init = \<lparr>allowed = True, remaining = RInfinity, limit = None,
     window = None, resetAt = None\<rparr>"
  define res1 where "res1 = (case hourly of
       None \<Rightarrow> ([], st)
     | Some h \<Rightarrow> (let (r, s) = checkWindowLimit count_error ident action ''hour'' h now st
                 in ([r], s)))"
  define res2 where "res2 = (case daily of
       None \<Rightarrow> res1
     | Some d \<Rightarrow> (let (r, s) = checkWindowLimit count_error ident action ''day'' d now (snd res1)
                 in (fst res1 @ [r], s)))"
  have r: "r = foldl mostRestrictive init (fst res2)"
    using c by (auto simp: checkLimit_def Some caps init_def res1_def res2_def Let_def
        split: prod.splits option.splits)
  have shape: "remaining x = RNum 0 \<and>
     (\<exists>cap win t. limit x = Some cap \<and> window x = Some win \<and> resetAt x = Some t \<and>
        (win = ''hour'' \<or> win = ''day''))"
    if "x \<in> set (fst res2)" "\<not> allowed x" for x
  proof -
    from that(1) have "(\<exists>h s. checkWindowLimit count_error ident action ''hour'' h now st = (x, s)) \<or>
        (\<exists>d s0 s. checkWindowLimit count_error ident action ''day'' d now s0 = (x, s))"
      by (auto simp: res2_def res1_def Let_def split: option.splits prod.splits)
    then show ?thesis
      using checkWindowLimit_denied that(2) by blast
  qed
  from foldl_mostRestrictive [of init "fst res2"] d have "r \<in> set (fst res2)"
    by (auto simp: r init_def)
  from shape [OF this d] show ?thesis .
qed

lemma example_denied_call:
  "rateLimitMiddleware ''chat'' False False 1000005000 1000005000 example_user_req
     example_limiter5 =
   (Respond 429
      (RateLimitBody ''Rate limit exceeded'' ''Too many chat requests. Please try again later.''
         (Some 5) (Some ''day'') (Some 1000005000)),
    [(''X-RateLimit-Limit'', limit_header (Some 5)),
     (''X-RateLimit-Remaining'', remaining_header (RNum 0)),
     (''X-RateLimit-Reset'', HTime 1000005000)],
    example_limiter5\<lparr>cache :=
      [(''user:u1:chat:hour'',
        \<lparr>cached_count = 5, cached_expires = 1000065000, cached_resetAt = 1000005000\<rparr>),
       (''user:u1:chat:day'',
        \<lparr>cached_count = 5, cached_expires = 1000065000, cached_resetAt = 1000005000\<rparr>)]\<rparr>)"
  by (simp add: example_user_req_def example_limiter5_def rateLimitMiddleware_def checkLimit_def
      RATE_LIMITS_def checkWindowLimit_def getCacheKey_def mostRestrictive_def Let_def)

text \<open>
  C3. Every request that \<open>authMiddleware\<close> lets through carries \<open>req.user.isApiKey = true\<close>,
  and \<open>rateLimitMiddleware\<close> then calls \<open>next()\<close> at once, for every action, store
  behaviour, clock and limiter state: no header is set, the answer is not a 429, and the
  limiter's state (its cache and the table of recorded usage) is unchanged.
\<close>

theorem authenticated_never_rate_limited:
  "authMiddleware env_key req = (Next, req') \<Longrightarrow>
     (\<exists>u. user req' = Some u \<and> isApiKey u) \<and>
     rateLimitMiddleware action count_error insert_error now now_rec req' st = (Next, [], st)"
  by (auto simp: authMiddleware_def rateLimitMiddleware_def Let_def split: if_splits)

theorem authenticated_never_rate_limited_witness:
  "fst (authMiddleware (Some ''secret'') example_key_req) = Next \<and>
   rateLimitMiddleware ''chat'' False False 1000005000 1000005000
     (snd (authMiddleware (Some ''secret'') example_key_req)) example_limiter5 =
     (Next, [], example_limiter5)"
proof -
  have pass: "fst (authMiddleware (Some ''secret'') example_key_req) = Next"
    by (simp add: authMiddleware_def example_key_req_def Let_def)
  then have "authMiddleware (Some ''secret'') example_key_req =
      (Next, snd (authMiddleware (Some ''secret'') example_key_req))"
    by (simp add: prod_eq_iff)
  from authenticated_never_rate_limited [OF this] pass show ?thesis
    by simp
qed

lemma rate_limited_route_cases:
  "rate_limited_route env_key action count_error insert_error now now_rec req st =
     (Respond 401 (ErrorBody ''Unauthorized''), [], st) \<or>
   rate_limited_route env_key action count_error insert_error now now_rec req st = (Next, [], st)"
  by (simp add: rate_limited_route_def authMiddleware_def rateLimitMiddleware_def Let_def)

text \<open>
  C6 as stated fails. The caller \<open>u1\<close> makes six \<open>chat\<close> calls one second apart through the
  route. \<open>authMiddleware\<close> marks each request as authenticated by API key, so
  \<open>rateLimitMiddleware\<close> passes each of them on: the sixth call is not answered 429 and
  carries no \<open>X-RateLimit-Remaining\<close> header. The same holds when the table already
  holds five \<open>chat\<close> events of the caller.
\<close>

theorem sixth_chat_call_counterexample:
  "chat_calls (Some ''secret'')
     [1000000000, 1000001000, 1000002000, 1000003000, 1000004000, 1000005000]
     example_key_req example_limiter0 =
   [(Next, []), (Next, []), (Next, []), (Next, []), (Next, []), (Next, [])] \<and>
   rate_limited_route (Some ''secret'') ''chat'' False False 1000005000 1000005000
     example_key_req example_limiter5 = (Next, [], example_limiter5)"
  by (simp add: rate_limited_route_def authMiddleware_def rateLimitMiddleware_def
      example_key_req_def Let_def)

text \<open>
  C6 as amended. Whenever \<open>rateLimitMiddleware\<close> denies a request, the most restrictive
  window, which \<open>checkLimit\<close> returns for the caller, has 0 remaining, the response has status 429 with the body
  \<open>{error, message, limit, window, resetAt}\<close> (the limit, the window \<open>hour\<close> or \<open>day\<close> and
  the reset time of that window), and the headers \<open>X-RateLimit-Limit\<close>,
  \<open>X-RateLimit-Remaining\<close> and \<open>X-RateLimit-Reset\<close> are set. On the routes of the program
  the limiter runs behind \<open>authMiddleware\<close>, so no request is denied there: a request is
  answered 401 or passed on with no rate-limit header and the limiter unchanged, however
  many calls came before; the 6th chat call within one hour is passed on.
\<close>

theorem rate_limit_denial:
  "(rateLimitMiddleware action count_error insert_error now now_rec req st =
      (Respond status b, hdrs, st') \<longrightarrow>
      status = 429 \<and>
      remaining (fst (checkLimit count_error
         (case user req of Some u \<Rightarrow> ''user:'' @ user_id u
                         | None \<Rightarrow> ''ip:'' @ getClientIp req)
         action
         (case user req of Some u \<Rightarrow> if premium u then ''premium'' else ''user''
                         | None \<Rightarrow> ''anonymous'')
         now st)) = RNum 0 \<and>
      (\<exists>cap win t.
         (win = ''hour'' \<or> win = ''day'') \<and>
         b = RateLimitBody ''Rate limit exceeded''
               (''Too many '' @ action @ '' requests. Please try again later.'')
               (Some cap) (Some win) (Some t)) \<and>
      map fst hdrs = [''X-RateLimit-Limit'', ''X-RateLimit-Remaining'', ''X-RateLimit-Reset'']) \<and>
   (rate_limited_route env_key action count_error insert_error now now_rec req st =
      (Respond 401 (ErrorBody ''Unauthorized''), [], st) \<or>
    rate_limited_route env_key action count_error insert_error now now_rec req st =
      (Next, [], st))"
proof -
  have deny: "status = 429 \<and>
      remaining (fst (checkLimit count_error
         (case user req of Some u \<Rightarrow> ''user:'' @ user_id u
                         | None \<Rightarrow> ''ip:'' @ getClientIp req)
         action
         (case user req of Some u \<Rightarrow> if premium u then ''premium'' else ''user''
                         | None \<Rightarrow> ''anonymous'')
         now st)) = RNum 0 \<and>
      (\<exists>cap win t.
         (win = ''hour'' \<or> win = ''day'') \<and>
         b = RateLimitBody ''Rate limit exceeded''
               (''Too many '' @ action @ '' requests. Please try again later.'')
               (Some cap) (Some win) (Some t)) \<and>
      map fst hdrs = [''X-RateLimit-Limit'', ''X-RateLimit-Remaining'', ''X-RateLimit-Reset'']"
    if m: "rateLimitMiddleware action count_error insert_error now now_rec req st =
      (Respond status b, hdrs, st')"
  proof -
    define ident where "ident = (case user req of
         Some u \<Rightarrow> ''user:'' @ user_id u | None \<Rightarrow> ''ip:'' @ getClientIp req)"
    define userType where "userType = (case user req of
         Some u \<Rightarrow> if premium u then ''premium'' else ''user'' | None \<Rightarrow> ''anonymous'')"
    obtain r st1 where c: "checkLimit count_error ident action userType now st = (r, st1)"
      by (cases "checkLimit count_error ident action userType now st")
    have pair: "(case user req of
                 Some u \<Rightarrow> (''user:'' @ user_id u, if premium u then ''premium'' else ''user'')
               | None \<Rightarrow> (''ip:'' @ getClientIp req, ''anonymous'')) = (ident, userType)"
      by (simp add: ident_def userType_def split: option.splits)
    from m have nokey: "\<not> (case user req of Some u \<Rightarrow> isApiKey u | None \<Rightarrow> False)"
      by (auto simp: rateLimitMiddleware_def split: if_splits)
    from m nokey have d: "\<not> allowed r"
      and s: "status = 429"
      and b: "b = RateLimitBody ''Rate limit exceeded''
               (''Too many '' @ action @ '' requests. Please try again later.'')
               (limit r) (window r) (resetAt r)"
      and h: "hdrs = [(''X-RateLimit-Limit'', limit_header (limit r)),
                    (''X-RateLimit-Remaining'', remaining_header (remaining r))] @
                   (case resetAt r of
                      Some t \<Rightarrow> [(''X-RateLimit-Reset'', HTime t)]
                    | None \<Rightarrow> [])"
      by (auto simp: rateLimitMiddleware_def pair c Let_def split: if_splits)
    from checkLimit_denied [OF c d] obtain cap win t where
      shape: "remaining r = RNum 0" "limit r = Some cap" "window r = Some win"
        "resetAt r = Some t" "win = ''hour'' \<or> win = ''day''"
      by blast
    have "remaining (fst (checkLimit count_error ident action userType now st)) = RNum 0"
      by (simp add: c shape(1))
    with s b h shape show ?thesis
      unfolding ident_def userType_def by auto
  qed
  from deny rate_limited_route_cases [of env_key action count_error insert_error now now_rec req st]
  show ?thesis by blast
qed

theorem rate_limit_denial_witness:
  "rateLimitMiddleware ''chat'' False False 1000005000 1000005000 example_user_req
     example_limiter5 =
   (Respond 429
      (RateLimitBody ''Rate limit exceeded'' ''Too many chat requests. Please try again later.''
         (Some 5) (Some ''day'') (Some 1000005000)),
    [(''X-RateLimit-Limit'', limit_header (Some 5)),
     (''X-RateLimit-Remaining'', remaining_header (RNum 0)),
     (''X-RateLimit-Reset'', HTime 1000005000)],
    example_limiter5\<lparr>cache :=
      [(''user:u1:chat:hour'',
        \<lparr>cached_count = 5, cached_expires = 1000065000, cached_resetAt = 1000005000\<rparr>),
       (''user:u1:chat:day'',
        \<lparr>cached_count = 5, cached_expires = 1000065000, cached_resetAt = 1000005000\<rparr>)]\<rparr>) \<and>
   map fst [(''X-RateLimit-Limit'', limit_header (Some 5)),
     (''X-RateLimit-Remaining'', remaining_header (RNum 0)),
     (''X-RateLimit-Reset'', HTime 1000005000)] =
     [''X-RateLimit-Limit'', ''X-RateLimit-Remaining'', ''X-RateLimit-Reset''] \<and>
   rate_limited_route (Some ''secret'') ''chat'' False False 1000005000 1000005000
     example_key_req example_limiter5 = (Next, [], example_limiter5)"
proof -
  have route: "rate_limited_route (Some ''secret'') ''chat'' False False 1000005000 1000005000
     example_key_req example_limiter5 = (Next, [], example_limiter5)"
    by (simp add: rate_limited_route_def authMiddleware_def rateLimitMiddleware_def
        example_key_req_def Let_def)
  from rate_limit_denial [of "''chat''" False False 1000005000 1000005000 example_user_req
      example_limiter5] example_denied_call
  have "map fst [(''X-RateLimit-Limit'', limit_header (Some 5)),
     (''X-RateLimit-Remaining'', remaining_header (RNum 0)),
     (''X-RateLimit-Reset'', HTime 1000005000)] =
     [''X-RateLimit-Limit'', ''X-RateLimit-Remaining'', ''X-RateLimit-Reset'']"
    by blast
  with example_denied_call route show ?thesis by blast
qed

section \<open>Channel pipeline statistics (channelProcessor.js, in unnamed/part_001)\<close>

text \<open>
  \<open>String.prototype.includes\<close>: the pattern occurs somewhere in the text (for texts of
  bytes and of UTF-16 code units alike).
\<close>

fun starts_with :: "'a list \<Rightarrow> 'a list \<Rightarrow> bool" where
  "starts_with _ [] = True"
| "starts_with [] (p # ps) = False"
| "starts_with (c # cs) (p # ps) = (c = p \<and> starts_with cs ps)"

fun str_includes :: "'a list \<Rightarrow> 'a list \<Rightarrow> bool" where
  "str_includes [] p = (p = [])"
| "str_includes (c # cs) p = (starts_with (c # cs) p \<or> str_includes cs p)"

text \<open>
  What one iteration of the loop of \<open>processChannel\<close> observes for its video: whether the
  video row exists with \<open>transcript_cached\<close> set, whether the upsert answers with an error,
  what \<open>processVideoTranscript\<close> returns, the \<open>processing_error\<close> read back afterwards
  (\<open>None\<close> for null or a missing row), and whether an exception is thrown inside the
  \<open>try\<close>: before any counter is touched, or by the read of \<open>processing_error\<close> (after
  \<open>failedCount++\<close>).
\<close>

datatype throw_point = NoThrow | ThrowBeforeCount | ThrowAtErrorLookup

record video_run =
  existing_cached :: bool
  upsert_error :: bool
  processed :: bool
  processing_error :: "string option"
  throws :: throw_point

record counters =
  processedCount :: nat
  failedCount :: nat
  existingCount :: nat
  noTranscriptCount :: nat

text \<open>The body of the loop over \<open>videosToProcess\<close>; the \<open>catch\<close> counts a failure.\<close>

definition process_one :: "video_run \<Rightarrow> counters \<Rightarrow> counters" where
  "process_one v c =
     (if throws v = ThrowBeforeCount then c\<lparr>failedCount := failedCount c + 1\<rparr>
      else if existing_cached v
      then c\<lparr>processedCount := processedCount c + 1, existingCount := existingCount c + 1\<rparr>
      else if upsert_error v then c\<lparr>failedCount := failedCount c + 1\<rparr>
      else if processed v then c\<lparr>processedCount := processedCount c + 1\<rparr>
      else
        (let c1 = c\<lparr>failedCount := failedCount c + 1\<rparr>
         in if throws v = ThrowAtErrorLookup then c1\<lparr>failedCount := failedCount c1 + 1\<rparr>
            else if (case processing_error v of
                       Some e \<Rightarrow> str_includes e ''transcript'' \<or> str_includes e ''captions''
                     | None \<Rightarrow> False)
            then c1\<lparr>noTranscriptCount := noTranscriptCount c1 + 1\<rparr>
            else c1))"

text \<open>
  The statistics part of \<open>processChannel\<close>: the counters start at 0, the loop runs over
  \<open>videos.slice(0, 20)\<close>, and the result is the counters with
  \<open>videosToProcess.length\<close>.
\<close>

definition processChannel_counts :: "video_run list \<Rightarrow> counters \<times> nat" where
  "processChannel_counts videos =
     (let videosToProcess = take 20 videos
      in (foldl (\<lambda>c v. process_one v c)
            \<lparr>processedCount = 0, failedCount = 0, existingCount = 0, noTranscriptCount = 0\<rparr>
            videosToProcess,
          length videosToProcess))"

text \<open>The statistics of the payload handed to \<open>sendChannelProcessingNotification\<close>.\<close>

record email_payload =
  userEmail :: string
  videosProcessed :: nat
  totalVideos :: nat
  existingVideos :: nat
  noTranscriptVideos :: nat
  failedVideos :: nat
  status :: string

text \<open>
  \<open>sendCompletionEmail\<close>: nothing is sent without a (non-empty) user e-mail; else the
  arguments are passed on unchanged with status \<open>completed\<close>.
\<close>

definition sendCompletionEmail ::
  "string option \<Rightarrow> nat \<Rightarrow> nat \<Rightarrow> nat \<Rightarrow> nat \<Rightarrow> nat \<Rightarrow> email_payload option" where
  "sendCompletionEmail email vProcessed totalV existing noTranscript failed =
     (case email of
        None \<Rightarrow> None
      | Some e \<Rightarrow>
          if e = [] then None
          else Some \<lparr>userEmail = e, videosProcessed = vProcessed, totalVideos = totalV,
                      existingVideos = existing, noTranscriptVideos = noTranscript,
                      failedVideos = failed, status = ''completed''\<rparr>)"

text \<open>The call at the end of \<open>processChannel\<close>, with the counters in the source's order.\<close>

definition processChannel_email :: "string option \<Rightarrow> video_run list \<Rightarrow> email_payload option" where
  "processChannel_email email videos =
     (case processChannel_counts videos of
        (c, totalV) \<Rightarrow>
          sendCompletionEmail email (processedCount c) totalV (existingCount c)
            (noTranscriptCount c) (failedCount c))"

text \<open>
  The channel of spec section 8, scenario 3: five listed videos, two newly processed, two
  already cached, one without captions (its \<open>processing_error\<close> is the message
  \<open>downloadTranscript\<close> raises for an empty transcript).
\<close>

definition run_new :: video_run where
  "run_new = \<lparr>existing_cached = False, upsert_error = False, processed = True,
               processing_error = None, throws = NoThrow\<rparr>"

definition run_cached :: video_run where
  "run_cached = \<lparr>existing_cached = True, upsert_error = False, processed = False,
                  processing_error = None, throws = NoThrow\<rparr>"

definition run_no_captions :: video_run where
  "run_no_captions = \<lparr>existing_cached = False, upsert_error = False, processed = False,
      processing_error = Some (''Unable to analyze this video. The video may not have '' @
                               ''captions enabled or may be private.''),
      throws = NoThrow\<rparr>"

definition example_channel :: "video_run list" where
  "example_channel = [run_new, run_cached, run_no_captions, run_cached, run_new]"

lemma process_one_inv:
  "noTranscriptCount c \<le> failedCount c \<Longrightarrow> existingCount c \<le> processedCount c \<Longrightarrow>
   noTranscriptCount (process_one v c) \<le> failedCount (process_one v c) \<and>
   existingCount (process_one v c) \<le> processedCount (process_one v c)"
  by (simp add: process_one_def Let_def)

lemma foldl_process_inv:
  "noTranscriptCount c \<le> failedCount c \<Longrightarrow> existingCount c \<le> processedCount c \<Longrightarrow>
   noTranscriptCount (foldl (\<lambda>c v. process_one v c) c vs)
     \<le> failedCount (foldl (\<lambda>c v. process_one v c) c vs) \<and>
   existingCount (foldl (\<lambda>c v. process_one v c) c vs)
     \<le> processedCount (foldl (\<lambda>c v. process_one v c) c vs)"
proof (induction vs arbitrary: c)
  case Nil
  then show ?case by simp
next
  case (Cons v vs)
  from process_one_inv [OF Cons.prems, of v] show ?case
    by (simp add: Cons.IH)
qed

lemma example_channel_email:
  "processChannel_email (Some ''user@example.com'') example_channel =
   Some \<lparr>userEmail = ''user@example.com'', videosProcessed = 4, totalVideos = 5,
         existingVideos = 2, noTranscriptVideos = 1, failedVideos = 1, status = ''completed''\<rparr>"
  by (simp add: processChannel_email_def processChannel_counts_def sendCompletionEmail_def
      example_channel_def run_new_def run_cached_def run_no_captions_def process_one_def Let_def)

text \<open>
  C5 as stated fails: for the channel of the scenario the payload is not
  \<open>processed=4, existing=2, no_transcript=1, failed=0, total=5\<close>; the video without
  captions is counted under \<open>failed\<close> as well, so \<open>failed\<close> is 1.
\<close>

theorem channel_stats_counterexample:
  "processChannel_email (Some ''user@example.com'') example_channel \<noteq>
   Some \<lparr>userEmail = ''user@example.com'', videosProcessed = 4, totalVideos = 5,
         existingVideos = 2, noTranscriptVideos = 1, failedVideos = 0, status = ''completed''\<rparr>"
  by (simp add: example_channel_email)

text \<open>
  C5 as amended. For every channel run: a video whose processing fails and whose
  \<open>processing_error\<close> contains \<open>transcript\<close> or \<open>captions\<close> is counted under both
  \<open>failed\<close> and \<open>no_transcript\<close> (each goes up by one, the other counters stay), so
  \<open>no_transcript\<close> is a sub-count of \<open>failed\<close>; the already cached videos are a sub-count
  of \<open>processed\<close>; the total is the number of listed videos, capped at 20. For the channel
  of the scenario the payload is
  \<open>processed=4, existing=2, no_transcript=1, failed=1, total=5\<close>.
\<close>

theorem channel_stats:
  "(case processChannel_counts videos of
      (c, totalV) \<Rightarrow>
        noTranscriptCount c \<le> failedCount c \<and> existingCount c \<le> processedCount c \<and>
        totalV = min 20 (length videos)) \<and>
   (throws v = NoThrow \<and> \<not> existing_cached v \<and> \<not> upsert_error v \<and> \<not> processed v \<and>
    processing_error v = Some e \<and> (str_includes e ''transcript'' \<or> str_includes e ''captions'')
      \<longrightarrow> process_one v c0 =
            c0\<lparr>failedCount := failedCount c0 + 1, noTranscriptCount := noTranscriptCount c0 + 1\<rparr>) \<and>
   processChannel_email (Some ''user@example.com'') example_channel =
     Some \<lparr>userEmail = ''user@example.com'', videosProcessed = 4, totalVideos = 5,
           existingVideos = 2, noTranscriptVideos = 1, failedVideos = 1, status = ''completed''\<rparr>"
proof -
  have inv: "noTranscriptCount (fst (processChannel_counts videos))
               \<le> failedCount (fst (processChannel_counts videos)) \<and>
             existingCount (fst (processChannel_counts videos))
               \<le> processedCount (fst (processChannel_counts videos))"
    using foldl_process_inv
      [of "\<lparr>processedCount = 0, failedCount = 0, existingCount = 0, noTranscriptCount = 0\<rparr>"
          "take 20 videos"]
    by (simp add: processChannel_counts_def Let_def)
  have tot: "snd (processChannel_counts videos) = min 20 (length videos)"
    by (simp add: processChannel_counts_def Let_def min.commute)
  have one: "throws v = NoThrow \<and> \<not> existing_cached v \<and> \<not> upsert_error v \<and> \<not> processed v \<and>
    processing_error v = Some e \<and> (str_includes e ''transcript'' \<or> str_includes e ''captions'')
      \<longrightarrow> process_one v c0 =
            c0\<lparr>failedCount := failedCount c0 + 1, noTranscriptCount := noTranscriptCount c0 + 1\<rparr>"
    by (auto simp: process_one_def Let_def)
  from inv tot one example_channel_email show ?thesis
    by (simp add: case_prod_beta)
qed

theorem channel_stats_witness:
  "processChannel_counts example_channel =
     (\<lparr>processedCount = 4, failedCount = 1, existingCount = 2, noTranscriptCount = 1\<rparr>, 5) \<and>
   throws run_no_captions = NoThrow \<and> \<not> existing_cached run_no_captions \<and>
   \<not> upsert_error run_no_captions \<and> \<not> processed run_no_captions \<and>
   str_includes (the (processing_error run_no_captions)) ''captions'' \<and>
   process_one run_no_captions
     \<lparr>processedCount = 1, failedCount = 0, existingCount = 1, noTranscriptCount = 0\<rparr> =
     \<lparr>processedCount = 1, failedCount = 1, existingCount = 1, noTranscriptCount = 1\<rparr>"
proof -
  have counts: "processChannel_counts example_channel =
     (\<lparr>processedCount = 4, failedCount = 1, existingCount = 2, noTranscriptCount = 1\<rparr>, 5)"
    by (simp add: processChannel_counts_def example_channel_def run_new_def run_cached_def
        run_no_captions_def process_one_def Let_def)
  have pre: "throws run_no_captions = NoThrow \<and> \<not> existing_cached run_no_captions \<and>
     \<not> upsert_error run_no_captions \<and> \<not> processed run_no_captions \<and>
     processing_error run_no_captions = Some (the (processing_error run_no_captions)) \<and>
     str_includes (the (processing_error run_no_captions)) ''captions''"
    by (simp add: run_no_captions_def)
  from channel_stats [of example_channel run_no_captions "the (processing_error run_no_captions)"
      "\<lparr>processedCount = 1, failedCount = 0, existingCount = 1, noTranscriptCount = 0\<rparr>"] pre
  have "process_one run_no_captions
     \<lparr>processedCount = 1, failedCount = 0, existingCount = 1, noTranscriptCount = 0\<rparr> =
     \<lparr>processedCount = 1, failedCount = 1, existingCount = 1, noTranscriptCount = 1\<rparr>"
    by simp
  with counts pre show ?thesis by simp
qed

section \<open>JavaScript strings\<close>

text \<open>
  A JavaScript string is a sequence of UTF-16 code units; \<open>.length\<close> counts code units.
  \<open>js\<close> turns an ASCII literal into such a string.
\<close>

type_synonym jsstring = "16 word list"

definition js :: "string \<Rightarrow> jsstring" where
  "js s = map of_char s"

text \<open>
  The white space of \<open>\s\<close> in a regular expression and of \<open>String.prototype.trim\<close>
  (WhiteSpace and LineTerminator), and the word characters of \<open>\w\<close>.
\<close>

definition is_ws :: "16 word \<Rightarrow> bool" where
  "is_ws c = (c \<in> set [0x09, 0x0A, 0x0B, 0x0C, 0x0D, 0x20, 0xA0, 0x1680, 0x2028, 0x2029,
                        0x202F, 0x205F, 0x3000, 0xFEFF] \<or> (0x2000 \<le> c \<and> c \<le> 0x200A))"

definition is_word_char :: "16 word \<Rightarrow> bool" where
  "is_word_char c = ((0x30 \<le> c \<and> c \<le> 0x39) \<or> (0x41 \<le> c \<and> c \<le> 0x5A) \<or> c = 0x5F \<or>
                     (0x61 \<le> c \<and> c \<le> 0x7A))"

definition js_trim :: "jsstring \<Rightarrow> jsstring" where
  "js_trim s = rev (dropWhile is_ws (rev (dropWhile is_ws s)))"

text \<open>
  \<open>String.prototype.toLowerCase\<close>, as far as the code below can observe it: its result
  only passes through \<open>replace(/[^\w\s]/g, ' ')\<close> and then a split on white space. ASCII
  capitals map to their small letters. Of the code units beyond ASCII exactly two have a
  lower case that contains a word character: U+212A (Kelvin sign, to \<open>k\<close>) and U+0130 (to
  \<open>i\<close> followed by U+0307). Every other code unit beyond ASCII maps to code units that are
  again neither word characters nor white space, and is kept as it is here.
\<close>

definition lower_unit :: "16 word \<Rightarrow> jsstring" where
  "lower_unit c = (if 0x41 \<le> c \<and> c \<le> 0x5A then [c + 0x20]
                   else if c = 0x212A then [0x6B]
                   else if c = 0x0130 then [0x69, 0x0307]
                   else [c])"

definition toLowerCase :: "jsstring \<Rightarrow> jsstring" where
  "toLowerCase s = concat (map lower_unit s)"

text \<open>\<open>.replace(/[^\w\s]/g, ' ')\<close>.\<close>

definition replace_non_word :: "jsstring \<Rightarrow> jsstring" where
  "replace_non_word s = map (\<lambda>c. if is_word_char c \<or> is_ws c then c else 0x20) s"

text \<open>
  \<open>.split(/\s+/)\<close>: the pieces between maximal runs of white space; a run at the start or
  the end of the text yields an empty piece there, and the empty text yields one empty
  piece. \<open>cur\<close> is the piece being read.
\<close>

function split_ws_from :: "jsstring \<Rightarrow> jsstring \<Rightarrow> jsstring list" where
  "split_ws_from cur [] = [cur]"
| "split_ws_from cur (c # cs) =
     (if is_ws c then cur # split_ws_from [] (dropWhile is_ws cs)
      else split_ws_from (cur @ [c]) cs)"
  by pat_completeness auto
termination
  by (relation "measure (\<lambda>(cur, s). length s)")
     (auto simp: length_dropWhile_le le_imp_less_Suc)

definition split_ws :: "jsstring \<Rightarrow> jsstring list" where
  "split_ws s = split_ws_from [] s"

text \<open>\<open>Array.from(new Set(xs))\<close>: the distinct elements in order of first occurrence.\<close>

fun uniq_from :: "'a list \<Rightarrow> 'a list \<Rightarrow> 'a list" where
  "uniq_from seen [] = []"
| "uniq_from seen (x # xs) =
     (if x \<in> set seen then uniq_from seen xs else x # uniq_from (seen @ [x]) xs)"

definition uniq :: "'a list \<Rightarrow> 'a list" where
  "uniq xs = uniq_from [] xs"

text \<open>
  \<open>Buffer.from(s, 'utf-8')\<close>: a high surrogate followed by a low surrogate is one code
  point beyond the basic plane (four bytes); a surrogate on its own is replaced by U+FFFD
  (three bytes \<open>EF BF BD\<close>).
\<close>

definition is_high_surrogate :: "16 word \<Rightarrow> bool" where
  "is_high_surrogate c = (0xD800 \<le> c \<and> c \<le> 0xDBFF)"

definition is_low_surrogate :: "16 word \<Rightarrow> bool" where
  "is_low_surrogate c = (0xDC00 \<le> c \<and> c \<le> 0xDFFF)"

definition encode_code_point :: "nat \<Rightarrow> 8 word list" where
  "encode_code_point cp =
     (if cp < 0x80 then [of_nat cp]
      else if cp < 0x800 then [of_nat (0xC0 + cp div 64), of_nat (0x80 + cp mod 64)]
      else if cp < 0x10000
      then [of_nat (0xE0 + cp div 4096), of_nat (0x80 + (cp div 64) mod 64),
            of_nat (0x80 + cp mod 64)]
      else [of_nat (0xF0 + cp div 262144), of_nat (0x80 + (cp div 4096) mod 64),
            of_nat (0x80 + (cp div 64) mod 64), of_nat (0x80 + cp mod 64)])"

fun utf8_encode :: "jsstring \<Rightarrow> 8 word list" where
  "utf8_encode [] = []"
| "utf8_encode [c] =
     (if is_high_surrogate c \<or> is_low_surrogate c then [0xEF, 0xBF, 0xBD]
      else encode_code_point (unat c))"
| "utf8_encode (c # d # cs) =
     (if is_high_surrogate c \<and> is_low_surrogate d
      then encode_code_point (0x10000 + (unat c - 0xD800) * 1024 + (unat d - 0xDC00)) @
           utf8_encode cs
      else (if is_high_surrogate c \<or> is_low_surrogate c then [0xEF, 0xBF, 0xBD]
            else encode_code_point (unat c)) @ utf8_encode (d # cs))"

text \<open>A number printed in decimal (\<open>Number.prototype.toString\<close> on an integer).\<close>

fun show_nat :: "nat \<Rightarrow> jsstring" where
  "show_nat n = (if n < 10 then [0x30 + of_nat n]
                 else show_nat (n div 10) @ [0x30 + of_nat (n mod 10)])"

declare show_nat.simps [simp del]

definition show_int :: "int \<Rightarrow> jsstring" where
  "show_int i = (if i < 0 then 0x2D # show_nat (nat (- i)) else show_nat (nat i))"

text \<open>\<open>s.padStart(2, '0')\<close>.\<close>

definition padStart2 :: "jsstring \<Rightarrow> jsstring" where
  "padStart2 s = replicate (2 - length s) 0x30 @ s"

section \<open>Keyword extraction (videoProcessor.js and ragSearch.js, in unnamed/part_001)\<close>

text \<open>The stop words of \<open>VideoProcessor.extractKeywords\<close> (the chunk side).\<close>

definition stopWords :: "jsstring list" where
  "stopWords = map js
     [''the'', ''a'', ''an'', ''and'', ''or'', ''but'', ''in'', ''on'', ''at'', ''to'', ''for'',
      ''of'', ''with'', ''by'', ''from'', ''as'', ''is'', ''was'', ''are'', ''were'', ''been'']"

text \<open>
  \<open>VideoProcessor.extractKeywords\<close>: lower case, every character outside \<open>\w\<close> and \<open>\s\<close>
  replaced by a space, split on white space, words longer than 3 that are no stop words,
  the distinct ones in order, at most 10.
\<close>

definition extractKeywords :: "jsstring \<Rightarrow> jsstring list" where
  "extractKeywords text =
     take 10 (uniq (filter (\<lambda>word. length word > 3 \<and> word \<notin> set stopWords)
                      (split_ws (replace_non_word (toLowerCase text)))))"

text \<open>The stop words of \<open>extractKeywords\<close> in ragSearch.js (the query side).\<close>

definition ragSearch_stopWords :: "jsstring list" where
  "ragSearch_stopWords = map js
     [''the'', ''a'', ''an'', ''and'', ''or'', ''but'', ''in'', ''on'', ''at'', ''to'', ''for'',
      ''of'', ''with'', ''by'', ''from'', ''as'', ''is'', ''was'', ''are'', ''were'', ''been'',
      ''what'', ''when'', ''where'', ''who'', ''why'', ''how'', ''which'', ''that'', ''this'']"

text \<open>
  \<open>extractKeywords\<close> of ragSearch.js: the same steps, but words longer than 2, its own stop
  words, and no cap on the number of keywords.
\<close>

definition ragSearch_extractKeywords :: "jsstring \<Rightarrow> jsstring list" where
  "ragSearch_extractKeywords text =
     uniq (filter (\<lambda>word. length word > 2 \<and> word \<notin> set ragSearch_stopWords)
             (split_ws (replace_non_word (toLowerCase text))))"

text \<open>The interrogatives that only the query side drops.\<close>

definition interrogatives :: "jsstring list" where
  "interrogatives = map js
     [''what'', ''when'', ''where'', ''who'', ''why'', ''how'', ''which'', ''that'', ''this'']"

text \<open>
  The first three steps, which the two functions share:
  \<open>text.toLowerCase().replace(/[^\w\s]/g, ' ').split(/\s+/)\<close>.
\<close>

definition tokenize :: "jsstring \<Rightarrow> jsstring list" where
  "tokenize text = split_ws (replace_non_word (toLowerCase text))"

lemma set_uniq_from: "set (uniq_from seen xs) = set xs - set seen"
  by (induction xs arbitrary: seen) auto

lemma set_uniq: "set (uniq xs) = set xs"
  by (simp add: uniq_def set_uniq_from)

lemma filter_uniq_from:
  "filter P (uniq_from seen xs) = uniq_from (filter P seen) (filter P xs)"
  by (induction xs arbitrary: seen) auto

lemma filter_uniq: "filter P (uniq xs) = uniq (filter P xs)"
  by (simp add: uniq_def filter_uniq_from)

lemma stopWords_split: "ragSearch_stopWords = stopWords @ interrogatives"
  by (simp add: ragSearch_stopWords_def stopWords_def interrogatives_def)

lemma interrogatives_long: "w \<in> set interrogatives \<Longrightarrow> length w > 2"
  by (auto simp: interrogatives_def js_def)

lemma keywords_what_cat:
  "extractKeywords (js ''What cat?'') = [js ''what''] \<and>
   ragSearch_extractKeywords (js ''What cat?'') = [js ''cat'']"
  by (simp add: extractKeywords_def ragSearch_extractKeywords_def js_def toLowerCase_def
      lower_unit_def replace_non_word_def is_word_char_def is_ws_def split_ws_def uniq_def
      stopWords_def ragSearch_stopWords_def)

text \<open>
  C7 as stated fails: on the query \<open>What cat?\<close> the chunk-side function returns
  \<open>[what]\<close> (it drops the three-letter \<open>cat\<close> and keeps the interrogative) and the
  query-side function returns \<open>[cat]\<close> (it keeps the three-letter word and drops the
  interrogative).
\<close>

theorem extractKeywords_counterexample:
  "extractKeywords (js ''What cat?'') = [js ''what''] \<and>
   ragSearch_extractKeywords (js ''What cat?'') = [js ''cat''] \<and>
   ragSearch_extractKeywords (js ''What cat?'') \<noteq> extractKeywords (js ''What cat?'')"
  using keywords_what_cat by (simp add: js_def)

text \<open>
  C7 as amended. Both functions lower-case, replace and split the text in the same way,
  but their token policies differ. For every text, the query-side keywords are exactly
  the tokens of length greater than 2 that are neither among the chunk side's stop words
  nor among nine interrogatives, with no cap; the chunk-side keywords are tokens of length
  greater than 3 that are none of its stop words, all of them when fewer than 10 are
  returned. So each chunk-side keyword that is no interrogative is a query-side keyword;
  and when the chunk side returns fewer than 10 keywords, the chunk-side keywords that
  are no interrogatives are exactly the query-side keywords longer than 3, in the same
  order.
\<close>

theorem extractKeywords_relation:
  "ragSearch_stopWords = stopWords @ interrogatives \<and>
   set (ragSearch_extractKeywords text) =
     {w. w \<in> set (tokenize text) \<and> 2 < length w \<and> w \<notin> set stopWords \<and> w \<notin> set interrogatives} \<and>
   set (extractKeywords text) \<subseteq>
     {w. w \<in> set (tokenize text) \<and> 3 < length w \<and> w \<notin> set stopWords} \<and>
   (length (extractKeywords text) < 10 \<longrightarrow>
      set (extractKeywords text) =
        {w. w \<in> set (tokenize text) \<and> 3 < length w \<and> w \<notin> set stopWords}) \<and>
   set (extractKeywords text) - set interrogatives \<subseteq> set (ragSearch_extractKeywords text) \<and>
   (length (extractKeywords text) < 10 \<longrightarrow>
      filter (\<lambda>w. w \<notin> set interrogatives) (extractKeywords text) =
      filter (\<lambda>w. length w > 3) (ragSearch_extractKeywords text))"
proof -
  define toks where "toks = tokenize text"
  define full where "full = uniq (filter (\<lambda>word. length word > 3 \<and> word \<notin> set stopWords) toks)"
  have ek: "extractKeywords text = take 10 full"
    by (simp add: extractKeywords_def full_def toks_def tokenize_def)
  have rk: "ragSearch_extractKeywords text =
      uniq (filter (\<lambda>word. length word > 2 \<and> word \<notin> set stopWords \<and> word \<notin> set interrogatives) toks)"
    by (simp add: ragSearch_extractKeywords_def toks_def tokenize_def stopWords_split)
  have qset: "set (ragSearch_extractKeywords text) =
     {w. w \<in> set toks \<and> 2 < length w \<and> w \<notin> set stopWords \<and> w \<notin> set interrogatives}"
    by (auto simp: rk set_uniq)
  have fset: "set full = {w. w \<in> set toks \<and> 3 < length w \<and> w \<notin> set stopWords}"
    by (auto simp: full_def set_uniq)
  have cset: "set (extractKeywords text) \<subseteq>
     {w. w \<in> set toks \<and> 3 < length w \<and> w \<notin> set stopWords}"
    using set_take_subset [of 10 full] by (simp only: ek fset [symmetric])
  have all: "extractKeywords text = full" if "length (extractKeywords text) < 10"
    using that by (simp add: ek)
  have ceq: "set (extractKeywords text) =
        {w. w \<in> set toks \<and> 3 < length w \<and> w \<notin> set stopWords}"
    if "length (extractKeywords text) < 10"
    using all [OF that] fset by simp
  have sub: "set (extractKeywords text) - set interrogatives \<subseteq> set (ragSearch_extractKeywords text)"
    using cset by (auto simp: qset)
  have agree: "filter (\<lambda>w. w \<notin> set interrogatives) full =
      filter (\<lambda>w. length w > 3) (ragSearch_extractKeywords text)"
  proof -
    have "filter (\<lambda>w. w \<notin> set interrogatives) full =
        uniq (filter (\<lambda>w. w \<notin> set interrogatives)
               (filter (\<lambda>word. length word > 3 \<and> word \<notin> set stopWords) toks))"
      by (simp add: full_def filter_uniq)
    also have "\<dots> = uniq (filter (\<lambda>w. length w > 3)
               (filter (\<lambda>word. length word > 2 \<and> word \<notin> set stopWords \<and> word \<notin> set interrogatives) toks))"
      by (rule arg_cong [where f = uniq]) (auto intro: filter_cong)
    also have "\<dots> = filter (\<lambda>w. length w > 3) (ragSearch_extractKeywords text)"
      by (simp add: rk filter_uniq)
    finally show ?thesis .
  qed
  have feq: "filter (\<lambda>w. w \<notin> set interrogatives) (extractKeywords text) =
      filter (\<lambda>w. length w > 3) (ragSearch_extractKeywords text)"
    if "length (extractKeywords text) < 10"
    using all [OF that] agree by simp
  from stopWords_split qset cset ceq sub feq show ?thesis
    unfolding toks_def by blast
qed

theorem extractKeywords_relation_witness:
  "extractKeywords (js ''What video explains cats and dog?'') =
     [js ''what'', js ''video'', js ''explains'', js ''cats''] \<and>
   ragSearch_extractKeywords (js ''What video explains cats and dog?'') =
     [js ''video'', js ''explains'', js ''cats'', js ''dog''] \<and>
   length (extractKeywords (js ''What video explains cats and dog?'')) < 10 \<and>
   js ''dog'' \<in> set (tokenize (js ''What video explains cats and dog?'')) \<and>
   js ''dog'' \<in> set (ragSearch_extractKeywords (js ''What video explains cats and dog?'')) \<and>
   js ''dog'' \<notin> set (extractKeywords (js ''What video explains cats and dog?'')) \<and>
   filter (\<lambda>w. w \<notin> set interrogatives)
     (extractKeywords (js ''What video explains cats and dog?'')) =
   filter (\<lambda>w. length w > 3) (ragSearch_extractKeywords (js ''What video explains cats and dog?''))"
proof -
  let ?t = "js ''What video explains cats and dog?''"
  have e: "extractKeywords ?t = [js ''what'', js ''video'', js ''explains'', js ''cats'']"
    by (simp add: extractKeywords_def js_def toLowerCase_def lower_unit_def replace_non_word_def
        is_word_char_def is_ws_def split_ws_def uniq_def stopWords_def)
  have r: "ragSearch_extractKeywords ?t = [js ''video'', js ''explains'', js ''cats'', js ''dog'']"
    by (simp add: ragSearch_extractKeywords_def js_def toLowerCase_def lower_unit_def
        replace_non_word_def is_word_char_def is_ws_def split_ws_def uniq_def
        ragSearch_stopWords_def)
  have short: "length (extractKeywords ?t) < 10"
    by (simp add: e)
  have inq: "js ''dog'' \<in> set (ragSearch_extractKeywords ?t)"
    by (simp add: r)
  have notc: "js ''dog'' \<notin> set (extractKeywords ?t)"
    unfolding e by (simp add: js_def)
  from extractKeywords_relation [of ?t] inq
  have tok: "js ''dog'' \<in> set (tokenize ?t)"
    by blast
  from extractKeywords_relation [of ?t] short
  have "filter (\<lambda>w. w \<notin> set interrogatives) (extractKeywords ?t) =
   filter (\<lambda>w. length w > 3) (ragSearch_extractKeywords ?t)"
    by blast
  with e r short inq notc tok show ?thesis by blast
qed

section \<open>Chunker and transcript blob (videoProcessor.js)\<close>

text \<open>
  A transcript segment as \<open>downloadTranscript\<close> returns it: whole seconds and the trimmed
  text. The provider's segment has a start and a duration (numbers, taken as reals here)
  and the raw text.
\<close>

record segment =
  seg_start :: int
  seg_end :: int
  seg_text :: jsstring

record raw_segment =
  raw_start :: real
  raw_duration :: real
  raw_text :: jsstring

text \<open>The conversion \<open>transcript.map(...)\<close> inside \<open>downloadTranscript\<close>.\<close>

definition downloadTranscript_segments :: "raw_segment list \<Rightarrow> segment list" where
  "downloadTranscript_segments transcript =
     map (\<lambda>s. \<lparr>seg_start = \<lfloor>raw_start s\<rfloor>, seg_end = \<lfloor>raw_start s + raw_duration s\<rfloor>,
               seg_text = js_trim (raw_text s)\<rparr>) transcript"

text \<open>
  \<open>formatTimestamp\<close>: \<open>Math.floor(seconds / 60)\<close>, then \<open>Math.floor(seconds % 60)\<close> with
  JavaScript's remainder (the sign of the dividend), padded to two places.
\<close>

definition formatTimestamp :: "int \<Rightarrow> jsstring" where
  "formatTimestamp seconds =
     (let mins = seconds div 60;
          secs = (if seconds < 0 then - ((- seconds) mod 60) else seconds mod 60)
      in show_int mins @ [0x3A] @ padStart2 (show_int secs))"

text \<open>The line \<open>`[${timestamp}] ${segment.text}\n`\<close> of a segment.\<close>

definition line_of :: "segment \<Rightarrow> jsstring" where
  "line_of s = [0x5B] @ formatTimestamp (seg_start s) @ [0x5D, 0x20] @ seg_text s @ [0x0A]"

record chunk =
  chunk_index :: nat
  start_time :: int
  end_time :: int
  byte_offset :: nat
  byte_length :: nat
  chunk_text :: jsstring
  chunk_keywords :: "jsstring list"

text \<open>The local variables of \<open>createChunks\<close>.\<close>

record chunker =
  chunks :: "chunk list"
  byteOffset :: nat
  chunkIndex :: nat
  currentChunk :: jsstring
  chunkStartTime :: int
  chunkEndTime :: int
  chunkStartOffset :: nat

text \<open>\<open>segment.text.match(/[.!?]$/)\<close>: the last code unit of the text is one of the three.\<close>

definition isNaturalBreak :: "jsstring \<Rightarrow> bool" where
  "isNaturalBreak t = (t \<noteq> [] \<and> last t \<in> {0x2E, 0x21, 0x3F})"

text \<open>
  One pass through the body of the loop of \<open>createChunks\<close>, for the segment at hand;
  \<open>isLastSegment\<close> is \<open>i === transcript.length - 1\<close>.
\<close>

definition chunk_step :: "nat \<Rightarrow> bool \<Rightarrow> segment \<Rightarrow> chunker \<Rightarrow> chunker" where
  "chunk_step chunkSize isLastSegment sg st =
     (let line = line_of sg;
          st1 = (if length (currentChunk st) = 0
                 then st\<lparr>chunkStartTime := seg_start sg, chunkStartOffset := byteOffset st\<rparr>
                 else st);
          st2 = st1\<lparr>currentChunk := currentChunk st1 @ line, chunkEndTime := seg_end sg\<rparr>;
          isLongEnough = (length (currentChunk st2) \<ge> chunkSize);
          isTooLong = (length (currentChunk st2) \<ge> 2000)
      in if (isNaturalBreak (seg_text sg) \<and> isLongEnough) \<or> isTooLong \<or> isLastSegment
         then (let chunkBytes = utf8_encode (currentChunk st2)
               in st2\<lparr>chunks := chunks st2 @
                         [\<lparr>chunk_index = chunkIndex st2,
                           start_time = chunkStartTime st2,
                           end_time = chunkEndTime st2,
                           byte_offset = chunkStartOffset st2,
                           byte_length = length chunkBytes,
                           chunk_text = currentChunk st2,
                           chunk_keywords = extractKeywords (currentChunk st2)\<rparr>],
                       byteOffset := byteOffset st2 + length chunkBytes,
                       chunkIndex := chunkIndex st2 + 1,
                       currentChunk := []\<rparr>)
         else st2)"

text \<open>
  The loop \<open>for (let i = 0; i < transcript.length; i++)\<close>, run from index \<open>i\<close> up to (not
  including) \<open>n\<close>: with \<open>n = transcript.length\<close> it is the source's loop, with a smaller
  \<open>n\<close> it gives the state in which iteration \<open>n\<close> starts.
\<close>

function createChunks_loop :: "nat \<Rightarrow> segment list \<Rightarrow> nat \<Rightarrow> nat \<Rightarrow> chunker \<Rightarrow> chunker" where
  "createChunks_loop chunkSize transcript n i st =
     (if i < n \<and> i < length transcript
      then createChunks_loop chunkSize transcript n (Suc i)
             (chunk_step chunkSize (i = length transcript - 1) (transcript ! i) st)
      else st)"
  by pat_completeness auto
termination
  by (relation "measure (\<lambda>(chunkSize, transcript, n, i, st). n - i)") auto

declare createChunks_loop.simps [simp del]

definition chunker_init :: chunker where
  "chunker_init = \<lparr>chunks = [], byteOffset = 0, chunkIndex = 0, currentChunk = [],
                    chunkStartTime = 0, chunkEndTime = 0, chunkStartOffset = 0\<rparr>"

definition createChunks :: "segment list \<Rightarrow> nat \<Rightarrow> chunk list" where
  "createChunks transcript chunkSize =
     chunks (createChunks_loop chunkSize transcript (length transcript) 0 chunker_init)"

text \<open>
  The text \<open>storeTranscript\<close> builds and uploads, and the bytes of the blob: the upload
  encodes the text as UTF-8.
\<close>

definition storeTranscript_content :: "segment list \<Rightarrow> jsstring" where
  "storeTranscript_content transcript = concat (map line_of transcript)"

definition transcript_blob :: "segment list \<Rightarrow> 8 word list" where
  "transcript_blob transcript = utf8_encode (storeTranscript_content transcript)"

lemma utf8_encode_append:
  "a = [] \<or> \<not> is_high_surrogate (last a) \<Longrightarrow> utf8_encode (a @ b) = utf8_encode a @ utf8_encode b"
proof (induction a rule: utf8_encode.induct)
  case 1
  then show ?case by simp
next
  case (2 c)
  then show ?case by (cases b) auto
next
  case (3 c d cs)
  then show ?case by (cases cs) (auto split: if_splits)
qed

lemma newline_not_high: "\<not> is_high_surrogate 0x0A"
  by (simp add: is_high_surrogate_def)

lemma line_of_last: "line_of s \<noteq> [] \<and> last (line_of s) = 0x0A"
  by (simp add: line_of_def)

lemma concat_nl_ended:
  "\<forall>t \<in> set ts. t \<noteq> [] \<and> last t = (0x0A :: 16 word) \<Longrightarrow> concat ts = [] \<or> last (concat ts) = 0x0A"
  by (induction ts rule: rev_induct) auto

lemma utf8_encode_nl_append:
  "a = [] \<or> last a = 0x0A \<Longrightarrow> utf8_encode (a @ b) = utf8_encode a @ utf8_encode b"
  by (rule utf8_encode_append) (auto simp: newline_not_high)

lemma loop_Suc:
  "n < length t \<Longrightarrow> i \<le> n \<Longrightarrow>
   createChunks_loop cs t (Suc n) i st =
   chunk_step cs (n = length t - 1) (t ! n) (createChunks_loop cs t n i st)"
proof (induction "n - i" arbitrary: i st)
  case 0
  then have "i = n" by simp
  with "0.prems" show ?case
    by (simp add: createChunks_loop.simps [of cs t "Suc n" n] createChunks_loop.simps [of cs t "Suc n" "Suc n"]
          createChunks_loop.simps [of cs t n n])
next
  case (Suc d)
  then have lt: "i < n" and d: "d = n - Suc i" by simp_all
  have "createChunks_loop cs t (Suc n) i st =
        createChunks_loop cs t (Suc n) (Suc i) (chunk_step cs (i = length t - 1) (t ! i) st)"
    using lt Suc.prems by (simp add: createChunks_loop.simps [of cs t "Suc n" i])
  also have "\<dots> = chunk_step cs (n = length t - 1) (t ! n)
        (createChunks_loop cs t n (Suc i) (chunk_step cs (i = length t - 1) (t ! i) st))"
    using Suc.hyps(1) [OF d] Suc.prems lt by simp
  also have "createChunks_loop cs t n (Suc i) (chunk_step cs (i = length t - 1) (t ! i) st) =
        createChunks_loop cs t n i st"
    using lt Suc.prems by (simp add: createChunks_loop.simps [of cs t n i])
  finally show ?case .
qed

lemma loop_0: "createChunks_loop cs t 0 0 st = st"
  by (simp add: createChunks_loop.simps)

text \<open>What one pass of the loop body does, when it closes the chunk and when it does not.\<close>

definition cut_condition :: "nat \<Rightarrow> bool \<Rightarrow> segment \<Rightarrow> chunker \<Rightarrow> bool" where
  "cut_condition chunkSize isLastSegment sg st \<longleftrightarrow>
     (isNaturalBreak (seg_text sg) \<and> chunkSize \<le> length (currentChunk st @ line_of sg)) \<or>
     2000 \<le> length (currentChunk st @ line_of sg) \<or> isLastSegment"

lemma chunk_step_keep:
  assumes "\<not> cut_condition cs isLast sg st"
  shows "chunks (chunk_step cs isLast sg st) = chunks st"
    and "currentChunk (chunk_step cs isLast sg st) = currentChunk st @ line_of sg"
    and "byteOffset (chunk_step cs isLast sg st) = byteOffset st"
    and "chunkIndex (chunk_step cs isLast sg st) = chunkIndex st"
    and "chunkStartOffset (chunk_step cs isLast sg st) =
           (if currentChunk st = [] then byteOffset st else chunkStartOffset st)"
  using assms by (auto simp: chunk_step_def cut_condition_def Let_def)

lemma chunk_step_close:
  assumes "cut_condition cs isLast sg st"
  shows "chunks (chunk_step cs isLast sg st) = chunks st @
           [\<lparr>chunk_index = chunkIndex st,
             start_time = (if currentChunk st = [] then seg_start sg else chunkStartTime st),
             end_time = seg_end sg,
             byte_offset = (if currentChunk st = [] then byteOffset st else chunkStartOffset st),
             byte_length = length (utf8_encode (currentChunk st @ line_of sg)),
             chunk_text = currentChunk st @ line_of sg,
             chunk_keywords = extractKeywords (currentChunk st @ line_of sg)\<rparr>]"
    and "currentChunk (chunk_step cs isLast sg st) = []"
    and "byteOffset (chunk_step cs isLast sg st) =
           byteOffset st + length (utf8_encode (currentChunk st @ line_of sg))"
    and "chunkIndex (chunk_step cs isLast sg st) = chunkIndex st + 1"
  using assms by (auto simp: chunk_step_def cut_condition_def Let_def)

text \<open>
  The invariant of the loop of \<open>createChunks\<close> after the segments \<open>pre\<close>: the closed chunks
  and the open buffer together are the lines read so far, every closed chunk ends with a
  line feed and carries its UTF-8 length, and the offsets are the UTF-8 lengths of what
  precedes.
\<close>

definition chunker_inv :: "segment list \<Rightarrow> chunker \<Rightarrow> bool" where
  "chunker_inv pre st \<longleftrightarrow>
     concat (map chunk_text (chunks st)) @ currentChunk st = concat (map line_of pre) \<and>
     (\<forall>c \<in> set (chunks st). chunk_text c \<noteq> [] \<and> last (chunk_text c) = 0x0A \<and>
        byte_length c = length (utf8_encode (chunk_text c))) \<and>
     (currentChunk st = [] \<or> last (currentChunk st) = 0x0A) \<and>
     byteOffset st = length (utf8_encode (concat (map chunk_text (chunks st)))) \<and>
     (currentChunk st \<noteq> [] \<longrightarrow> chunkStartOffset st = byteOffset st) \<and>
     chunkIndex st = length (chunks st) \<and>
     (\<forall>k < length (chunks st).
        byte_offset (chunks st ! k) =
          length (utf8_encode (concat (map chunk_text (take k (chunks st))))) \<and>
        chunk_index (chunks st ! k) = k)"

lemma chunker_inv_init: "chunker_inv [] chunker_init"
  by (simp add: chunker_inv_def chunker_init_def)

lemma chunker_inv_step:
  assumes inv: "chunker_inv pre st"
  shows "chunker_inv (pre @ [sg]) (chunk_step cs isLast sg st)"
proof -
  let ?buf = "currentChunk st @ line_of sg"
  let ?closed = "concat (map chunk_text (chunks st))"
  let ?st' = "chunk_step cs isLast sg st"
  from inv have cat: "?closed @ currentChunk st = concat (map line_of pre)"
    and ch: "\<forall>c \<in> set (chunks st). chunk_text c \<noteq> [] \<and> last (chunk_text c) = 0x0A \<and>
        byte_length c = length (utf8_encode (chunk_text c))"
    and off: "byteOffset st = length (utf8_encode ?closed)"
    and start: "currentChunk st \<noteq> [] \<longrightarrow> chunkStartOffset st = byteOffset st"
    and idx: "chunkIndex st = length (chunks st)"
    and offs: "\<forall>k < length (chunks st).
        byte_offset (chunks st ! k) =
          length (utf8_encode (concat (map chunk_text (take k (chunks st))))) \<and>
        chunk_index (chunks st ! k) = k"
    by (simp_all add: chunker_inv_def)
  have buf: "?buf \<noteq> [] \<and> last ?buf = 0x0A"
    using line_of_last [of sg] by simp
  have closed_nl: "?closed = [] \<or> last ?closed = 0x0A"
    using ch by (intro concat_nl_ended) auto
  have enc: "utf8_encode (?closed @ ?buf) = utf8_encode ?closed @ utf8_encode ?buf"
    by (rule utf8_encode_nl_append [OF closed_nl])
  have startoff: "(if currentChunk st = [] then byteOffset st else chunkStartOffset st) = byteOffset st"
    using start by auto
  show ?thesis
  proof (cases "cut_condition cs isLast sg st")
    case False
    note k = chunk_step_keep [OF False]
    show ?thesis
      unfolding chunker_inv_def k
      using cat ch off idx offs buf startoff by auto
  next
    case True
    note c = chunk_step_close [OF True, unfolded startoff]
    have k_all: "byte_offset (chunks ?st' ! k) =
          length (utf8_encode (concat (map chunk_text (take k (chunks ?st'))))) \<and>
        chunk_index (chunks ?st' ! k) = k" if "k < length (chunks ?st')" for k
    proof (cases "k < length (chunks st)")
      case True
      with offs show ?thesis by (simp add: c(1) nth_append)
    next
      case False
      with that have "k = length (chunks st)" by (simp add: c(1))
      then show ?thesis using off idx by (simp add: c(1))
    qed
    have "concat (map chunk_text (chunks ?st')) @ currentChunk ?st' = concat (map line_of (pre @ [sg]))"
      using cat by (simp add: c(1) c(2))
    moreover have "\<forall>c \<in> set (chunks ?st'). chunk_text c \<noteq> [] \<and> last (chunk_text c) = 0x0A \<and>
        byte_length c = length (utf8_encode (chunk_text c))"
      using ch buf by (auto simp: c(1))
    moreover have "byteOffset ?st' = length (utf8_encode (concat (map chunk_text (chunks ?st'))))"
      using off enc by (simp add: c(1) c(3))
    moreover have "chunkIndex ?st' = length (chunks ?st')"
      using idx by (simp add: c(1) c(4))
    ultimately show ?thesis
      unfolding chunker_inv_def using k_all by (simp add: c(2))
  qed
qed

lemma chunker_inv_loop:
  "n \<le> length t \<Longrightarrow> chunker_inv (take n t) (createChunks_loop cs t n 0 chunker_init)"
proof (induction n)
  case 0
  then show ?case by (simp add: loop_0 chunker_inv_init)
next
  case (Suc n)
  then have n: "n < length t" by simp
  have "chunker_inv (take n t @ [t ! n])
          (chunk_step cs (n = length t - 1) (t ! n) (createChunks_loop cs t n 0 chunker_init))"
    by (rule chunker_inv_step) (use Suc n in simp)
  then show ?case
    by (simp add: loop_Suc [OF n] take_Suc_conv_app_nth [OF n])
qed

lemma loop_final_currentChunk:
  "currentChunk (createChunks_loop cs t (length t) 0 chunker_init) = []"
proof (cases t rule: rev_cases)
  case Nil
  then show ?thesis by (simp add: loop_0 chunker_init_def)
next
  case (snoc ys y)
  then have n: "length t - 1 < length t" by simp
  have "createChunks_loop cs t (Suc (length t - 1)) 0 chunker_init =
        chunk_step cs True (t ! (length t - 1)) (createChunks_loop cs t (length t - 1) 0 chunker_init)"
    using loop_Suc [OF n, of 0 cs chunker_init] by simp
  moreover have "Suc (length t - 1) = length t" using n by simp
  ultimately show ?thesis
    by (simp add: chunk_step_close(2) cut_condition_def)
qed

section \<open>Storing the chunks (videoProcessor.js, storeChunks)\<close>

text \<open>
  A row of \<open>videos\<close> (the two ids only) and a row of \<open>transcript_chunks\<close>. A video has its
  YouTube id (\<open>youtube_id\<close>) and the id of its row (\<open>id\<close>); \<open>transcript_chunks.video_id\<close>
  refers to the latter.
\<close>

record video_row =
  youtube_id :: string
  video_db_id :: string

record chunk_row =
  video_id :: string
  row_chunk_index :: nat
  row_start_time :: int
  row_end_time :: int
  storage_path :: string
  row_byte_offset :: nat
  row_byte_length :: nat
  row_keywords :: "jsstring list"
  embedding :: "real list option"

record store =
  videos :: "video_row list"
  transcript_chunks :: "chunk_row list"

text \<open>
  The record \<open>storeChunks\<close> builds for a chunk with its embedding (null when the embedding
  call failed): \<open>chunk.byte_offset || 0\<close> and \<open>chunk.byte_length || chunk.text.length\<close>.
\<close>

definition chunkRecord :: "string \<Rightarrow> string \<Rightarrow> chunk \<times> real list option \<Rightarrow> chunk_row" where
  "chunkRecord vid transcriptPath ce =
     (case ce of (c, e) \<Rightarrow>
        \<lparr>video_id = vid,
         row_chunk_index = chunk_index c,
         row_start_time = start_time c,
         row_end_time = end_time c,
         storage_path = transcriptPath,
         row_byte_offset = (if byte_offset c = 0 then 0 else byte_offset c),
         row_byte_length = (if byte_length c = 0 then length (chunk_text c) else byte_length c),
         row_keywords = chunk_keywords c,
         embedding = e\<rparr>)"

datatype store_error = VideoNotFound | FailedToStoreChunks

text \<open>
  \<open>storeChunks(videoId, chunks, transcriptPath)\<close>, where \<open>videoId\<close> is the YouTube id that
  \<open>processVideo\<close> passes. First the delete with the filter \<open>.eq('video_id', videoId)\<close>,
  whose answer is not looked at; then the video row is read by \<open>youtube_id\<close> (\<open>.single()\<close>:
  exactly one match, else the error \<open>Video not found\<close>); then the new records, which carry
  \<open>video.id\<close>, are inserted (\<open>insert_error\<close>: the store answers the insert with an error).
\<close>

definition storeChunks ::
  "bool \<Rightarrow> string \<Rightarrow> (chunk \<times> real list option) list \<Rightarrow> string \<Rightarrow> store
     \<Rightarrow> (store_error + unit) \<times> store" where
  "storeChunks insert_error videoId cs transcriptPath db =
     (let db1 = db\<lparr>transcript_chunks :=
                    filter (\<lambda>r. video_id r \<noteq> videoId) (transcript_chunks db)\<rparr>
      in case filter (\<lambda>v. youtube_id v = videoId) (videos db1) of
           [video] \<Rightarrow>
             if insert_error then (Inl FailedToStoreChunks, db1)
             else (Inr (),
                   db1\<lparr>transcript_chunks := transcript_chunks db1 @
                          map (chunkRecord (video_db_id video) transcriptPath) cs\<rparr>)
         | _ \<Rightarrow> (Inl VideoNotFound, db1))"

text \<open>What a reader gets for a video: the rows whose \<open>video_id\<close> is the id of its row.\<close>

definition chunks_of_video :: "string \<Rightarrow> store \<Rightarrow> chunk_row list" where
  "chunks_of_video vid db = filter (\<lambda>r. video_id r = vid) (transcript_chunks db)"

lemma encode_code_point_nonempty: "encode_code_point cp \<noteq> []"
  by (simp add: encode_code_point_def)

lemma utf8_encode_nonempty: "s \<noteq> [] \<Longrightarrow> utf8_encode s \<noteq> []"
  by (induction s rule: utf8_encode.induct) (auto simp: encode_code_point_nonempty)

lemma createChunks_inv:
  "chunker_inv t (createChunks_loop cs t (length t) 0 chunker_init)"
  using chunker_inv_loop [of "length t" t cs] by simp

lemma createChunks_facts:
  fixes t cs
  defines "xs \<equiv> createChunks t cs"
  shows "concat (map chunk_text xs) = storeTranscript_content t"
    and "\<forall>c \<in> set xs. chunk_text c \<noteq> [] \<and> last (chunk_text c) = 0x0A \<and>
           byte_length c = length (utf8_encode (chunk_text c))"
    and "\<forall>k < length xs. byte_offset (xs ! k) =
           length (utf8_encode (concat (map chunk_text (take k xs)))) \<and> chunk_index (xs ! k) = k"
  using createChunks_inv [of t cs] loop_final_currentChunk [of cs t]
  by (simp_all add: chunker_inv_def xs_def createChunks_def storeTranscript_content_def)

lemma utf8_encode_concat_nl:
  "\<forall>t \<in> set ts. t \<noteq> [] \<and> last t = (0x0A :: 16 word) \<Longrightarrow>
   utf8_encode (concat ts) = concat (map utf8_encode ts)"
proof (induction ts rule: rev_induct)
  case Nil
  then show ?case by simp
next
  case (snoc x xs)
  then have "concat xs = [] \<or> last (concat xs) = 0x0A"
    by (intro concat_nl_ended) auto
  then have "utf8_encode (concat xs @ x) = utf8_encode (concat xs) @ utf8_encode x"
    by (rule utf8_encode_nl_append)
  with snoc show ?case by simp
qed

lemma concat_map_split:
  assumes "k < length xs"
  shows "concat (map g xs) = concat (map g (take k xs)) @ g (xs ! k) @ concat (map g (drop (Suc k) xs))"
proof -
  have "concat (map g xs) = concat (map g (take k xs @ xs ! k # drop (Suc k) xs))"
    by (metis id_take_nth_drop assms)
  then show ?thesis by simp
qed

text \<open>
  A transcript of two segments as the provider returns it, the second with a character
  beyond ASCII and an emoji (a surrogate pair), and what \<open>downloadTranscript\<close> makes of it.
\<close>

definition example_raw :: "raw_segment list" where
  "example_raw =
     [\<lparr>raw_start = 0, raw_duration = 3.5, raw_text = js '' Hello there. ''\<rparr>,
      \<lparr>raw_start = 65.2, raw_duration = 5, raw_text = [0x48, 0xE9, 0xD83D, 0xDE00]\<rparr>]"

definition example_transcript :: "segment list" where
  "example_transcript =
     [\<lparr>seg_start = 0, seg_end = 3, seg_text = js ''Hello there.''\<rparr>,
      \<lparr>seg_start = 65, seg_end = 70, seg_text = [0x48, 0xE9, 0xD83D, 0xDE00]\<rparr>]"

text \<open>
  C9 (byte accounting). For every transcript and chunk size, with \<open>cs\<close> the chunks of
  \<open>createChunks\<close> and \<open>blob\<close> the UTF-8 bytes of the text \<open>storeTranscript\<close> uploads: every
  chunk's \<open>byte_length\<close> is the UTF-8 length of its text, the bytes of the blob from
  \<open>byte_offset\<close> on, \<open>byte_length\<close> many, are the UTF-8 encoding of the chunk's text, and
  the row \<open>storeChunks\<close> builds carries the same two numbers; chunk 0 starts at offset 0;
  each chunk starts where its predecessor ends; the last chunk ends where the blob ends;
  and with no chunk the blob is empty.
\<close>

theorem byte_accounting:
  "(let cs = createChunks transcript chunkSize; blob = transcript_blob transcript in
     (\<forall>k < length cs.
        byte_length (cs ! k) = length (utf8_encode (chunk_text (cs ! k))) \<and>
        take (byte_length (cs ! k)) (drop (byte_offset (cs ! k)) blob) =
          utf8_encode (chunk_text (cs ! k)) \<and>
        row_byte_offset (chunkRecord vid path (cs ! k, e)) = byte_offset (cs ! k) \<and>
        row_byte_length (chunkRecord vid path (cs ! k, e)) = byte_length (cs ! k)) \<and>
     (cs \<noteq> [] \<longrightarrow> byte_offset (cs ! 0) = 0) \<and>
     (\<forall>k. Suc k < length cs \<longrightarrow>
        byte_offset (cs ! Suc k) = byte_offset (cs ! k) + byte_length (cs ! k)) \<and>
     (cs \<noteq> [] \<longrightarrow> byte_offset (last cs) + byte_length (last cs) = length blob) \<and>
     (cs = [] \<longrightarrow> blob = []))"
proof -
  define cs where "cs = createChunks transcript chunkSize"
  define blob where "blob = transcript_blob transcript"
  note f = createChunks_facts [of transcript chunkSize, folded cs_def]
  have nl: "\<forall>t \<in> set (map chunk_text cs). t \<noteq> [] \<and> last t = 0x0A"
    using f(2) by auto
  have blob_eq: "blob = concat (map utf8_encode (map chunk_text cs))"
    using utf8_encode_concat_nl [OF nl] by (simp add: blob_def transcript_blob_def f(1))
  have off: "byte_offset (cs ! k) = length (concat (map utf8_encode (map chunk_text (take k cs))))"
    if "k < length cs" for k
  proof -
    have "\<forall>t \<in> set (map chunk_text (take k cs)). t \<noteq> [] \<and> last t = 0x0A"
      using nl by (auto dest: in_set_takeD)
    from utf8_encode_concat_nl [OF this] f(3) that show ?thesis by simp
  qed
  have len: "byte_length (cs ! k) = length (utf8_encode (chunk_text (cs ! k)))"
    if "k < length cs" for k
    using f(2) that by simp
  have slice: "take (byte_length (cs ! k)) (drop (byte_offset (cs ! k)) blob) =
          utf8_encode (chunk_text (cs ! k))" if "k < length cs" for k
  proof -
    have "blob = concat (map utf8_encode (map chunk_text (take k cs))) @
        utf8_encode (chunk_text (cs ! k)) @
        concat (map utf8_encode (map chunk_text (drop (Suc k) cs)))"
      using concat_map_split [OF that, of "\<lambda>c. utf8_encode (chunk_text c)"]
      by (simp add: blob_eq comp_def)
    then show ?thesis
      by (simp add: off [OF that] len [OF that])
  qed
  have rows: "row_byte_offset (chunkRecord vid path (cs ! k, e)) = byte_offset (cs ! k) \<and>
        row_byte_length (chunkRecord vid path (cs ! k, e)) = byte_length (cs ! k)"
    if "k < length cs" for k
  proof -
    have "chunk_text (cs ! k) \<noteq> []" using f(2) that by simp
    then have "byte_length (cs ! k) \<noteq> 0"
      using utf8_encode_nonempty len [OF that] by simp
    then show ?thesis by (simp add: chunkRecord_def)
  qed
  have first: "byte_offset (cs ! 0) = 0" if "cs \<noteq> []"
    using off [of 0] that by simp
  have consecutive: "byte_offset (cs ! Suc k) = byte_offset (cs ! k) + byte_length (cs ! k)"
    if "Suc k < length cs" for k
  proof -
    from that have k: "k < length cs" by simp
    show ?thesis
      using off [OF that] off [OF k] len [OF k]
      by (simp add: take_Suc_conv_app_nth [OF k])
  qed
  have total: "byte_offset (last cs) + byte_length (last cs) = length blob" if "cs \<noteq> []"
  proof -
    from that have k: "length cs - 1 < length cs" by simp
    have l: "last cs = cs ! (length cs - 1)" using that by (simp add: last_conv_nth)
    have "blob = concat (map utf8_encode (map chunk_text (take (length cs - 1) cs))) @
        utf8_encode (chunk_text (cs ! (length cs - 1)))"
      using concat_map_split [OF k, of "\<lambda>c. utf8_encode (chunk_text c)"] k
      by (simp add: blob_eq comp_def)
    then show ?thesis
      using off [OF k] len [OF k] by (simp add: l)
  qed
  have empty: "blob = []" if "cs = []"
    using that by (simp add: blob_eq)
  show ?thesis
    unfolding Let_def cs_def [symmetric] blob_def [symmetric]
    using len slice rows first consecutive total empty by blast
qed

text \<open>
  The cut policy in the words of the specification: the last character of the text that
  is not white space is a full stop, an exclamation mark or a question mark.
\<close>

definition ends_with_sentence_terminator :: "jsstring \<Rightarrow> bool" where
  "ends_with_sentence_terminator t =
     (case dropWhile is_ws (rev t) of [] \<Rightarrow> False | c # _ \<Rightarrow> c \<in> {0x2E, 0x21, 0x3F})"

lemma js_trim_trimmed: "js_trim t = [] \<or> \<not> is_ws (last (js_trim t))"
proof (cases "dropWhile is_ws (rev (dropWhile is_ws t))")
  case Nil
  then show ?thesis by (simp add: js_trim_def)
next
  case (Cons c cs)
  then have "\<not> is_ws c" using hd_dropWhile [of is_ws "rev (dropWhile is_ws t)"] by auto
  with Cons show ?thesis by (simp add: js_trim_def)
qed

lemma isNaturalBreak_trimmed:
  assumes "t = [] \<or> \<not> is_ws (last t)"
  shows "isNaturalBreak t = ends_with_sentence_terminator t"
proof (cases t rule: rev_cases)
  case Nil
  then show ?thesis by (simp add: isNaturalBreak_def ends_with_sentence_terminator_def)
next
  case (snoc ys y)
  with assms have "\<not> is_ws y" by simp
  with snoc show ?thesis
    by (simp add: isNaturalBreak_def ends_with_sentence_terminator_def)
qed

lemma downloadTranscript_trimmed:
  assumes "sg \<in> set (downloadTranscript_segments raw)"
  shows "seg_text sg = [] \<or> \<not> is_ws (last (seg_text sg))"
proof -
  from assms have "\<exists>u. seg_text sg = js_trim u"
    by (auto simp: downloadTranscript_segments_def)
  then obtain u where "seg_text sg = js_trim u" ..
  then show ?thesis using js_trim_trimmed [of u] by simp
qed

lemma loop_chunks_grow:
  "n \<le> m \<Longrightarrow> m \<le> length t \<Longrightarrow>
   take (length (chunks (createChunks_loop cs t n 0 st0)))
        (chunks (createChunks_loop cs t m 0 st0)) = chunks (createChunks_loop cs t n 0 st0)"
proof (induction m)
  case 0
  then show ?case by simp
next
  case (Suc m)
  show ?case
  proof (cases "n = Suc m")
    case True
    then show ?thesis by simp
  next
    case False
    with Suc.prems have nm: "n \<le> m" and m: "m < length t" by simp_all
    let ?sm = "createChunks_loop cs t m 0 st0"
    let ?sn = "createChunks_loop cs t n 0 st0"
    have ih: "take (length (chunks ?sn)) (chunks ?sm) = chunks ?sn"
      using Suc.IH nm m by simp
    from arg_cong [OF ih, of length] have le: "length (chunks ?sn) \<le> length (chunks ?sm)"
      by (simp add: min_def split: if_splits)
    have "\<exists>ys. chunks (createChunks_loop cs t (Suc m) 0 st0) = chunks ?sm @ ys"
    proof (cases "cut_condition cs (m = length t - 1) (t ! m) ?sm")
      case True
      then show ?thesis by (simp add: loop_Suc [OF m] chunk_step_close(1))
    next
      case False
      then show ?thesis by (simp add: loop_Suc [OF m] chunk_step_keep(1))
    qed
    then obtain ys where "chunks (createChunks_loop cs t (Suc m) 0 st0) = chunks ?sm @ ys" ..
    with ih le show ?thesis by simp
  qed
qed

text \<open>
  C8. Let the transcript be what \<open>downloadTranscript\<close> hands to \<open>createChunks\<close> (default
  chunk size 1000), \<open>st\<close> the state of the loop when iteration \<open>i\<close> starts and \<open>st'\<close> the
  state after it, and \<open>buffer\<close> the open buffer with the line of segment \<open>i\<close> appended.
  The iteration closes the chunk (one chunk more, whose text is the buffer, and the buffer
  is reset) exactly when \<open>(natural \<and> long) \<or> too_long \<or> last\<close>; otherwise no chunk is added
  and the buffer is kept. The chunks closed so far are a prefix of the result of
  \<open>createChunks\<close>.
\<close>

theorem cut_policy:
  "i < length raw \<Longrightarrow>
   (let transcript = downloadTranscript_segments raw;
        st = createChunks_loop 1000 transcript i 0 chunker_init;
        st' = createChunks_loop 1000 transcript (Suc i) 0 chunker_init;
        buffer = currentChunk st @ line_of (transcript ! i);
        natural = ends_with_sentence_terminator (seg_text (transcript ! i));
        long = (length buffer \<ge> 1000);
        too_long = (length buffer \<ge> 2000);
        lastSegment = (i = length transcript - 1)
    in (if (natural \<and> long) \<or> too_long \<or> lastSegment
        then chunks st' = chunks st @ [last (chunks st')] \<and>
             chunk_text (last (chunks st')) = buffer \<and> currentChunk st' = []
        else chunks st' = chunks st \<and> currentChunk st' = buffer) \<and>
       take (length (chunks st')) (createChunks transcript 1000) = chunks st')"
proof -
  assume i: "i < length raw"
  define transcript where "transcript = downloadTranscript_segments raw"
  define st where "st = createChunks_loop 1000 transcript i 0 chunker_init"
  define st' where "st' = createChunks_loop 1000 transcript (Suc i) 0 chunker_init"
  define buffer where "buffer = currentChunk st @ line_of (transcript ! i)"
  have it: "i < length transcript"
    using i by (simp add: transcript_def downloadTranscript_segments_def)
  have "transcript ! i \<in> set (downloadTranscript_segments raw)"
    using it by (simp add: transcript_def)
  then have nat_eq: "isNaturalBreak (seg_text (transcript ! i)) =
      ends_with_sentence_terminator (seg_text (transcript ! i))"
    by (intro isNaturalBreak_trimmed downloadTranscript_trimmed)
  have step: "st' = chunk_step 1000 (i = length transcript - 1) (transcript ! i) st"
    using loop_Suc [OF it, of 0 1000 chunker_init] by (simp add: st'_def st_def)
  have cond: "cut_condition 1000 (i = length transcript - 1) (transcript ! i) st \<longleftrightarrow>
      (ends_with_sentence_terminator (seg_text (transcript ! i)) \<and> 1000 \<le> length buffer) \<or>
      2000 \<le> length buffer \<or> i = length transcript - 1"
    by (simp add: cut_condition_def nat_eq buffer_def)
  have pre: "take (length (chunks st')) (createChunks transcript 1000) = chunks st'"
    using loop_chunks_grow [of "Suc i" "length transcript" transcript 1000 chunker_init] it
    by (simp add: st'_def createChunks_def)
  have main: "if (ends_with_sentence_terminator (seg_text (transcript ! i)) \<and> 1000 \<le> length buffer) \<or>
      2000 \<le> length buffer \<or> i = length transcript - 1
      then chunks st' = chunks st @ [last (chunks st')] \<and>
           chunk_text (last (chunks st')) = buffer \<and> currentChunk st' = []
      else chunks st' = chunks st \<and> currentChunk st' = buffer"
  proof (cases "cut_condition 1000 (i = length transcript - 1) (transcript ! i) st")
    case True
    from chunk_step_close [OF True] have "chunks st' = chunks st @ [last (chunks st')]"
      "chunk_text (last (chunks st')) = buffer" "currentChunk st' = []"
      by (simp_all add: step buffer_def)
    with True cond show ?thesis by simp
  next
    case False
    from chunk_step_keep [OF False] have "chunks st' = chunks st" "currentChunk st' = buffer"
      by (simp_all add: step buffer_def)
    with False cond show ?thesis by simp
  qed
  show ?thesis
    unfolding Let_def transcript_def [symmetric] st_def [symmetric] st'_def [symmetric]
      buffer_def [symmetric]
    using main pre by simp
qed

lemma example_download: "downloadTranscript_segments example_raw = example_transcript"
  by (simp add: downloadTranscript_segments_def example_raw_def example_transcript_def js_trim_def
      js_def is_ws_def)

lemma example_lines:
  "line_of (example_transcript ! 0) = js ''[0:00] Hello there.'' @ [0x0A]"
  "line_of (example_transcript ! Suc 0) = js ''[1:05] '' @ [0x48, 0xE9, 0xD83D, 0xDE00, 0x0A]"
  by (simp_all add: example_transcript_def line_of_def formatTimestamp_def show_int_def
      show_nat.simps padStart2_def js_def)

lemma example_offsets:
  "map byte_offset (createChunks example_transcript 10) = [0, 20]"
  "map byte_length (createChunks example_transcript 10) = [20, 15]"
  "map chunk_text (createChunks example_transcript 10) =
     [js ''[0:00] Hello there.'' @ [0x0A], js ''[1:05] '' @ [0x48, 0xE9, 0xD83D, 0xDE00, 0x0A]]"
  by (simp_all add: createChunks_def createChunks_loop.simps chunk_step_def chunker_init_def
      example_transcript_def line_of_def formatTimestamp_def show_int_def
      show_nat.simps padStart2_def js_def isNaturalBreak_def Let_def
      is_high_surrogate_def is_low_surrogate_def encode_code_point_def)

lemma example_blob: "transcript_blob example_transcript =
   [91, 48, 58, 48, 48, 93, 32, 72, 101, 108, 108, 111, 32, 116, 104, 101,
  114, 101, 46, 10, 91, 49, 58, 48, 53, 93, 32, 72, 195, 169, 240, 159, 152,
  128, 10]"
  by (simp add: transcript_blob_def storeTranscript_content_def
      example_transcript_def line_of_def formatTimestamp_def show_int_def
      show_nat.simps padStart2_def js_def
      is_high_surrogate_def is_low_surrogate_def encode_code_point_def)

lemma example_length: "length example_raw = 2" "length example_transcript = 2"
  by (simp_all add: example_raw_def example_transcript_def)

theorem byte_accounting_witness:
  "map byte_offset (createChunks example_transcript 10) = [0, 20] \<and>
   map byte_length (createChunks example_transcript 10) = [20, 15] \<and>
   length (transcript_blob example_transcript) = 35 \<and>
   take 15 (drop 20 (transcript_blob example_transcript)) =
     utf8_encode (chunk_text (createChunks example_transcript 10 ! Suc 0))"
proof -
  define cs where "cs = createChunks example_transcript 10"
  have o: "map byte_offset cs = [0, 20]" and l: "map byte_length cs = [20, 15]"
    by (simp_all add: cs_def example_offsets)
  from arg_cong [OF o, of length] have n: "length cs = 2" by simp
  have o1: "byte_offset (cs ! Suc 0) = 20"
    using nth_map [of "Suc 0" cs byte_offset] n by (simp add: o)
  have l1: "byte_length (cs ! Suc 0) = 15"
    using nth_map [of "Suc 0" cs byte_length] n by (simp add: l)
  have ne: "cs \<noteq> []" using n by auto
  have last1: "last cs = cs ! Suc 0" using n ne by (simp add: last_conv_nth)
  note ba = byte_accounting [of example_transcript 10 "''uuid-1''" "''abc123/transcript.txt''" None,
      unfolded Let_def, folded cs_def]
  from ba have "\<forall>k < length cs. take (byte_length (cs ! k)) (drop (byte_offset (cs ! k))
      (transcript_blob example_transcript)) = utf8_encode (chunk_text (cs ! k))"
    by blast
  moreover have "Suc 0 < length cs" using n by simp
  ultimately have slice: "take (byte_length (cs ! Suc 0)) (drop (byte_offset (cs ! Suc 0))
      (transcript_blob example_transcript)) = utf8_encode (chunk_text (cs ! Suc 0))"
    by blast
  from ba ne have "byte_offset (last cs) + byte_length (last cs) =
      length (transcript_blob example_transcript)"
    by blast
  then have total: "length (transcript_blob example_transcript) = 35"
    by (simp add: last1 o1 l1)
  from slice have "take 15 (drop 20 (transcript_blob example_transcript)) =
      utf8_encode (chunk_text (cs ! Suc 0))"
    by (simp only: o1 l1)
  with o l total show ?thesis
    by (simp only: cs_def)
qed

theorem cut_policy_witness:
  "downloadTranscript_segments example_raw = example_transcript \<and>
   chunks (createChunks_loop 1000 example_transcript 1 0 chunker_init) = [] \<and>
   currentChunk (createChunks_loop 1000 example_transcript 1 0 chunker_init) =
     js ''[0:00] Hello there.'' @ [0x0A] \<and>
   map chunk_text (chunks (createChunks_loop 1000 example_transcript 2 0 chunker_init)) =
     [js ''[0:00] Hello there.'' @ [0x0A] @ js ''[1:05] '' @ [0x48, 0xE9, 0xD83D, 0xDE00, 0x0A]] \<and>
   currentChunk (createChunks_loop 1000 example_transcript 2 0 chunker_init) = []"
proof -
  let ?st1 = "createChunks_loop 1000 example_transcript (Suc 0) 0 chunker_init"
  let ?st2 = "createChunks_loop 1000 example_transcript (Suc (Suc 0)) 0 chunker_init"
  have h0: "0 < length example_raw" and h1: "Suc 0 < length example_raw"
    by (simp_all add: example_length)
  have nat0: "ends_with_sentence_terminator (seg_text (example_transcript ! 0))"
    by (simp add: example_transcript_def ends_with_sentence_terminator_def js_def is_ws_def)
  have len0: "length (line_of (example_transcript ! 0)) = 20"
    by (simp add: example_lines js_def)
  have st1: "chunks ?st1 = [] \<and> currentChunk ?st1 = js ''[0:00] Hello there.'' @ [0x0A]"
    using cut_policy [OF h0, unfolded Let_def example_download loop_0]
    by (simp add: chunker_init_def nat0 example_length example_lines js_def)
  have st2: "chunks ?st2 = chunks ?st1 @ [last (chunks ?st2)] \<and>
     chunk_text (last (chunks ?st2)) = currentChunk ?st1 @ line_of (example_transcript ! Suc 0) \<and>
     currentChunk ?st2 = []"
    using cut_policy [OF h1, unfolded Let_def example_download]
    by (simp add: example_length)
  then have "map chunk_text (chunks ?st2) = [chunk_text (last (chunks ?st2))]"
    using st1 by (metis append_Nil list.simps(8,9))
  with st1 st2 example_download show ?thesis
    by (simp add: example_lines numeral_2_eq_2)
qed

text \<open>
  A video with one stored chunk that is processed again: the rows of \<open>videos\<close> and
  \<open>transcript_chunks\<close> before the run, and the new batch of one chunk.
\<close>

definition example_old_row :: chunk_row where
  "example_old_row = \<lparr>video_id = ''uuid-1'', row_chunk_index = 0, row_start_time = 0,
     row_end_time = 3, storage_path = ''abc123/transcript.txt'', row_byte_offset = 0,
     row_byte_length = 20, row_keywords = [], embedding = None\<rparr>"

definition example_store :: store where
  "example_store = \<lparr>videos = [\<lparr>youtube_id = ''abc123'', video_db_id = ''uuid-1''\<rparr>],
                      transcript_chunks = [example_old_row]\<rparr>"

definition example_new_chunk :: chunk where
  "example_new_chunk = \<lparr>chunk_index = 0, start_time = 0, end_time = 70, byte_offset = 0,
     byte_length = 35, chunk_text = js ''[0:00] Hello there.'', chunk_keywords = []\<rparr>"

text \<open>
  C1, evaluated on the code. \<open>storeChunks\<close> is called with the YouTube id \<open>abc123\<close> (as
  \<open>processVideo\<close> does) for a video whose row id is \<open>uuid-1\<close> and which has one stored
  chunk. The delete filters \<open>video_id\<close> by the YouTube id and so removes no row of the
  video; the insert succeeds; afterwards a reader of the video's chunks gets the old row
  followed by the new one, not the new batch alone.
\<close>

theorem storeChunks_keeps_old_rows:
  "fst (storeChunks False ''abc123'' [(example_new_chunk, None)] ''abc123/transcript.txt''
          example_store) = Inr () \<and>
   chunks_of_video ''uuid-1''
     (snd (storeChunks False ''abc123'' [(example_new_chunk, None)] ''abc123/transcript.txt''
             example_store)) =
     [example_old_row,
      chunkRecord ''uuid-1'' ''abc123/transcript.txt'' (example_new_chunk, None)] \<and>
   chunks_of_video ''uuid-1''
     (snd (storeChunks False ''abc123'' [(example_new_chunk, None)] ''abc123/transcript.txt''
             example_store)) \<noteq>
     [chunkRecord ''uuid-1'' ''abc123/transcript.txt'' (example_new_chunk, None)]"
  by (simp add: storeChunks_def example_store_def chunks_of_video_def example_old_row_def
      chunkRecord_def Let_def)

section \<open>Streaming chat (chatService.js, streamChat)\<close>


text \<open>The frames written to the response, and the calls to the store made for the turn.\<close>

datatype 'c frame = ContentFrame string | DoneFrame "'c list" | ErrorFrame string










section \<open>Video search (ragSearch.js in unnamed/part_001)\<close>

text \<open>
  The video search that the program runs is \<open>hybridChunkSearch\<close> of ragSearch.js. The class
  \<open>RAGService\<close> of ragService.js is imported by no module and none of its methods is
  ever called; it is not part of this development.
\<close>

text \<open>
  A row of \<open>transcript_chunks\<close> as the searches read it. Numbers are taken as reals; the
  source computes in floating point.
\<close>

record db_chunk =
  dc_id :: string
  dc_chunk_index :: nat
  dc_text_preview :: jsstring
  dc_keywords :: "jsstring list option"
  dc_embedding :: "real list option"

text \<open>
  The cosine similarity of \<open>hybridChunkSearch\<close>: the three \<open>reduce\<close> calls and the
  quotient. The model agrees with the source where the chunk's vector has the query's
  dimension and neither vector is all zero (the source yields NaN otherwise).
\<close>

definition cosine_similarity :: "real list \<Rightarrow> real list \<Rightarrow> real" where
  "cosine_similarity e q =
     (let dotProduct = foldl (\<lambda>sum (v, w). sum + v * w) 0 (zip e q);
          chunkMagnitude = sqrt (foldl (\<lambda>sum v. sum + v * v) 0 e);
          queryMagnitude = sqrt (foldl (\<lambda>sum v. sum + v * v) 0 q)
      in dotProduct / (chunkMagnitude * queryMagnitude))"

definition similarity_of :: "real list \<Rightarrow> db_chunk \<Rightarrow> real" where
  "similarity_of queryEmbedding c =
     (case dc_embedding c of None \<Rightarrow> 0 | Some e \<Rightarrow> cosine_similarity e queryEmbedding)"

definition embeddings_ok :: "real list \<Rightarrow> db_chunk list \<Rightarrow> bool" where
  "embeddings_ok queryEmbedding allChunks \<longleftrightarrow>
     list_ex (\<lambda>v. v \<noteq> 0) queryEmbedding \<and>
     list_all (\<lambda>c. case dc_embedding c of
                      None \<Rightarrow> True
                    | Some e \<Rightarrow> length e = length queryEmbedding \<and> list_ex (\<lambda>v. v \<noteq> 0) e)
       allChunks"

text \<open>
  Step 3 of \<open>hybridChunkSearch\<close>: every chunk with its similarity, sorted by similarity
  descending (\<open>Array.prototype.sort\<close> is stable), the first \<open>topK\<close>.
\<close>

definition resultsWithSimilarity :: "real list \<Rightarrow> db_chunk list \<Rightarrow> nat \<Rightarrow> (db_chunk \<times> real) list" where
  "resultsWithSimilarity queryEmbedding allChunks topK =
     take topK (sort_key (\<lambda>(c, s). - s)
                  (map (\<lambda>c. (c, similarity_of queryEmbedding c)) allChunks))"

text \<open>
  Step 4: the chunks one of whose keywords contains a query keyword or is contained in
  one, both in lower case.
\<close>

definition keyword_match :: "jsstring list \<Rightarrow> db_chunk \<Rightarrow> bool" where
  "keyword_match queryKeywords c =
     (case dc_keywords c of
        None \<Rightarrow> False
      | Some ks \<Rightarrow>
          list_ex (\<lambda>queryKeyword.
            list_ex (\<lambda>chunkKeyword.
              str_includes (toLowerCase chunkKeyword) (toLowerCase queryKeyword) \<or>
              str_includes (toLowerCase queryKeyword) (toLowerCase chunkKeyword)) ks)
            queryKeywords)"

definition keywordResults :: "jsstring list \<Rightarrow> db_chunk list \<Rightarrow> db_chunk list" where
  "keywordResults queryKeywords allChunks =
     (if queryKeywords \<noteq> [] then filter (keyword_match queryKeywords) allChunks else [])"

text \<open>An entry of the map \<open>allResults\<close>: the chunk, its similarity if it has one, its score.\<close>

record scored_chunk =
  sc_chunk :: db_chunk
  sc_similarity :: "real option"
  sc_score :: real

text \<open>Step 5, the two \<open>forEach\<close> loops over the map \<open>allResults\<close> keyed by chunk id.\<close>

definition add_semantic ::
  "(string \<times> scored_chunk) list \<Rightarrow> db_chunk \<times> real \<Rightarrow> (string \<times> scored_chunk) list" where
  "add_semantic m cs =
     (case cs of (c, s) \<Rightarrow>
        map_set (dc_id c) \<lparr>sc_chunk = c, sc_similarity = Some s, sc_score = s\<rparr> m)"

definition add_keyword ::
  "(string \<times> scored_chunk) list \<Rightarrow> db_chunk \<Rightarrow> (string \<times> scored_chunk) list" where
  "add_keyword m c =
     (case map_of m (dc_id c) of
        Some existing \<Rightarrow> map_set (dc_id c) (existing\<lparr>sc_score := sc_score existing + 0.3\<rparr>) m
      | None \<Rightarrow> map_set (dc_id c) \<lparr>sc_chunk = c, sc_similarity = None, sc_score = 0.5\<rparr> m)"

text \<open>
  \<open>hybridChunkSearch\<close> up to the sorted results (before the texts are loaded): the query
  keywords come from \<open>extractKeywords\<close> of ragSearch.js, the query embedding from the
  embedding provider.
\<close>

definition hybridChunkSearch ::
  "real list \<Rightarrow> jsstring \<Rightarrow> db_chunk list \<Rightarrow> nat \<Rightarrow> scored_chunk list" where
  "hybridChunkSearch queryEmbedding query allChunks topK =
     (let queryKeywords = ragSearch_extractKeywords query;
          semantic = resultsWithSimilarity queryEmbedding allChunks topK;
          allResults = foldl add_keyword (foldl add_semantic [] semantic)
                         (keywordResults queryKeywords allChunks)
      in take topK (sort_key (\<lambda>r. - sc_score r) (map snd allResults)))"

text \<open>
  The two candidate chunks of spec section 8, scenario 4, against the query embedding
  \<open>[1, 0]\<close>: A has cosine similarity 0.8 and keywords that match nothing, B has cosine
  similarity 0.6, matching keywords and both matching words in its preview.
\<close>

definition chunkA :: db_chunk where
  "chunkA = \<lparr>dc_id = ''A'', dc_chunk_index = 0, dc_text_preview = js ''[0:00] Cooking pasta at home'',
             dc_keywords = Some [js ''cooking'', js ''pasta''], dc_embedding = Some [4, 3]\<rparr>"

definition chunkB :: db_chunk where
  "chunkB = \<lparr>dc_id = ''B'', dc_chunk_index = 1, dc_text_preview = js ''[1:05] Funny cats compilation'',
             dc_keywords = Some [js ''funny'', js ''cats''], dc_embedding = Some [3, 4]\<rparr>"

lemma map_of_map_set: "map_of (map_set k v m) = (map_of m)(k \<mapsto> v)"
  by (induction m) auto

lemma keys_map_set: "fst ` set (map_set k v m) = insert k (fst ` set m)"
  by (induction m) (force split: if_splits)+

lemma distinct_map_set: "distinct (map fst m) \<Longrightarrow> distinct (map fst (map_set k v m))"
proof (induction m)
  case Nil
  then show ?case by simp
next
  case (Cons a m)
  obtain k' v' where a: "a = (k', v')" by (cases a)
  from Cons show ?case
    using keys_map_set [of k v m] by (auto simp: a)
qed

lemma add_semantic_pair:
  "add_semantic m (c, s) = map_set (dc_id c) \<lparr>sc_chunk = c, sc_similarity = Some s, sc_score = s\<rparr> m"
  by (simp add: add_semantic_def)

lemma distinct_add_semantic: "distinct (map fst m) \<Longrightarrow> distinct (map fst (foldl add_semantic m S))"
  by (induction S arbitrary: m) (auto simp: add_semantic_def distinct_map_set)

lemma distinct_add_keyword: "distinct (map fst m) \<Longrightarrow> distinct (map fst (foldl add_keyword m K))"
  by (induction K arbitrary: m) (auto simp: add_keyword_def distinct_map_set split: option.splits)

definition semantic_entry :: "db_chunk \<times> real \<Rightarrow> string \<times> scored_chunk" where
  "semantic_entry cs = (case cs of (c, s) \<Rightarrow>
     (dc_id c, \<lparr>sc_chunk = c, sc_similarity = Some s, sc_score = s\<rparr>))"

definition keyword_entry :: "db_chunk \<Rightarrow> string \<times> scored_chunk" where
  "keyword_entry c = (dc_id c, \<lparr>sc_chunk = c, sc_similarity = None, sc_score = 0.5\<rparr>)"

lemma map_of_add_semantic:
  "distinct (map (\<lambda>cs. dc_id (fst cs)) S) \<Longrightarrow>
   map_of (foldl add_semantic m S) = map_of m ++ map_of (map semantic_entry S)"
proof (induction S arbitrary: m)
  case Nil
  then show ?case by simp
next
  case (Cons a S)
  obtain c s where a: "a = (c, s)" by (cases a)
  from Cons.prems have notin: "dc_id c \<notin> (\<lambda>cs. dc_id (fst cs)) ` set S" and d: "distinct (map (\<lambda>cs. dc_id (fst cs)) S)"
    by (auto simp: a)
  have "dc_id c \<notin> fst ` set (map semantic_entry S)"
    using notin by (force simp: semantic_entry_def split: prod.splits)
  then have none: "map_of (map semantic_entry S) (dc_id c) = None"
    by (simp add: map_of_eq_None_iff)
  have "map_of (foldl add_semantic m (a # S)) =
      (map_of m)(dc_id c \<mapsto> \<lparr>sc_chunk = c, sc_similarity = Some s, sc_score = s\<rparr>) ++
        map_of (map semantic_entry S)"
    using Cons.IH [OF d, of "map_set (dc_id c) \<lparr>sc_chunk = c, sc_similarity = Some s, sc_score = s\<rparr> m"]
    by (simp only: a foldl_Cons add_semantic_pair map_of_map_set)
  also have "\<dots> = map_of m ++ map_of (map semantic_entry (a # S))"
    using none by (auto simp: a semantic_entry_def map_add_def fun_eq_iff split: option.splits)
  finally show ?case .
qed

text \<open>The map after the keyword results \<open>P\<close> have been merged into the semantic map \<open>m0\<close>.\<close>

definition merged :: "(string \<rightharpoonup> scored_chunk) \<Rightarrow> db_chunk list \<Rightarrow> string \<rightharpoonup> scored_chunk" where
  "merged m0 P k =
     (case m0 k of
        Some r \<Rightarrow> Some (if k \<in> dc_id ` set P then r\<lparr>sc_score := sc_score r + 0.3\<rparr> else r)
      | None \<Rightarrow> map_of (map keyword_entry P) k)"

lemma map_of_add_keyword:
  "distinct (map dc_id (P @ K)) \<Longrightarrow> map_of m = merged m0 P \<Longrightarrow>
   map_of (foldl add_keyword m K) = merged m0 (P @ K)"
proof (induction K arbitrary: m P)
  case Nil
  then show ?case by simp
next
  case (Cons c K)
  from Cons.prems(1) have fresh: "dc_id c \<notin> dc_id ` set P" and d: "distinct (map dc_id ((P @ [c]) @ K))"
    by auto
  have fresh_kw: "map_of (map keyword_entry P) (dc_id c) = None"
    using fresh by (auto simp: map_of_eq_None_iff keyword_entry_def)
  have step: "map_of (add_keyword m c) = merged m0 (P @ [c])"
  proof (rule ext)
    fix k
    show "map_of (add_keyword m c) k = merged m0 (P @ [c]) k"
    proof (cases "m0 (dc_id c)")
      case None
      then have "map_of m (dc_id c) = None"
        using fresh_kw by (simp add: Cons.prems(2) merged_def)
      then have "map_of (add_keyword m c) k =
          ((map_of m)(dc_id c \<mapsto> \<lparr>sc_chunk = c, sc_similarity = None, sc_score = 0.5\<rparr>)) k"
        by (simp add: add_keyword_def map_of_map_set)
      also have "\<dots> = merged m0 (P @ [c]) k"
        using None fresh_kw
        by (auto simp: Cons.prems(2) merged_def keyword_entry_def map_add_def split: option.splits)
      finally show ?thesis .
    next
      case (Some r)
      then have "map_of m (dc_id c) = Some r"
        using fresh by (simp add: Cons.prems(2) merged_def)
      then have "map_of (add_keyword m c) k =
          ((map_of m)(dc_id c \<mapsto> r\<lparr>sc_score := sc_score r + 0.3\<rparr>)) k"
        by (simp add: add_keyword_def map_of_map_set)
      also have "\<dots> = merged m0 (P @ [c]) k"
        using Some fresh
        by (auto simp: Cons.prems(2) merged_def map_add_def keyword_entry_def split: option.splits)
      finally show ?thesis .
    qed
  qed
  from Cons.IH [OF d step] show ?case by simp
qed

lemma merged_Nil: "merged m0 [] = m0"
  by (rule ext) (simp add: merged_def split: option.splits)

lemma resultsWithSimilarity_facts:
  assumes "distinct (map dc_id allChunks)"
  shows "distinct (map (\<lambda>cs. dc_id (fst cs)) (resultsWithSimilarity q allChunks topK))"
    and "(c, s) \<in> set (resultsWithSimilarity q allChunks topK) \<Longrightarrow>
           c \<in> set allChunks \<and> s = similarity_of q c"
proof -
  let ?xs = "map (\<lambda>c. (c, similarity_of q c)) allChunks"
  let ?ys = "sort_key (\<lambda>(c, s). - s) ?xs"
  have "map (\<lambda>cs. dc_id (fst cs)) ?xs = map dc_id allChunks" by (simp add: comp_def)
  with assms have "distinct (map (\<lambda>cs. dc_id (fst cs)) ?xs)" by (simp only:)
  then have "distinct ?xs" "inj_on (\<lambda>cs. dc_id (fst cs)) (set ?xs)"
    by (simp_all only: distinct_map)
  then have "distinct ?ys" "inj_on (\<lambda>cs. dc_id (fst cs)) (set ?ys)"
    by simp_all
  then have "distinct (take topK ?ys)" "inj_on (\<lambda>cs. dc_id (fst cs)) (set (take topK ?ys))"
    using set_take_subset [of topK ?ys] by (simp, blast intro: inj_on_subset)
  then show "distinct (map (\<lambda>cs. dc_id (fst cs)) (resultsWithSimilarity q allChunks topK))"
    by (simp only: resultsWithSimilarity_def distinct_map)
  assume "(c, s) \<in> set (resultsWithSimilarity q allChunks topK)"
  then have "(c, s) \<in> set ?xs"
    by (auto simp: resultsWithSimilarity_def dest: in_set_takeD)
  then show "c \<in> set allChunks \<and> s = similarity_of q c" by auto
qed

lemma keywordResults_facts:
  assumes "distinct (map dc_id allChunks)"
  shows "distinct (map dc_id (keywordResults qk allChunks))"
    and "set (keywordResults qk allChunks) \<subseteq> set allChunks"
  using assms by (auto simp: keywordResults_def distinct_map_filter)

lemma hybrid_entry:
  assumes d: "distinct (map dc_id allChunks)"
    and r: "r \<in> set (hybridChunkSearch q query allChunks topK)"
  shows "sc_chunk r \<in> set allChunks \<and>
     (if sc_chunk r \<in> fst ` set (resultsWithSimilarity q allChunks topK)
      then sc_score r = similarity_of q (sc_chunk r) +
             (if sc_chunk r \<in> set (keywordResults (ragSearch_extractKeywords query) allChunks)
              then 0.3 else 0)
      else sc_chunk r \<in> set (keywordResults (ragSearch_extractKeywords query) allChunks) \<and>
           sc_score r = 0.5)"
proof -
  define S where "S = resultsWithSimilarity q allChunks topK"
  define K where "K = keywordResults (ragSearch_extractKeywords query) allChunks"
  define M0 where "M0 = foldl add_semantic [] S"
  define M where "M = foldl add_keyword M0 K"
  have Sf1: "distinct (map (\<lambda>cs. dc_id (fst cs)) S)"
    unfolding S_def by (rule resultsWithSimilarity_facts(1) [OF d])
  have Sf2: "c \<in> set allChunks \<and> s = similarity_of q c" if "(c, s) \<in> set S" for c s
    using that unfolding S_def by (rule resultsWithSimilarity_facts(2) [OF d])
  have Kf: "distinct (map dc_id K)" "set K \<subseteq> set allChunks"
    unfolding K_def by (rule keywordResults_facts [OF d])+
  have inj: "inj_on dc_id (set allChunks)"
    using d by (simp add: distinct_map)
  have m0: "map_of M0 = map_of (map semantic_entry S)"
    using map_of_add_semantic [OF Sf1, of "[]"] by (simp add: M0_def)
  have dM: "distinct (map fst M)"
    unfolding M_def M0_def
    by (intro distinct_add_keyword distinct_add_semantic) simp
  have mM: "map_of M = merged (map_of M0) K"
    using map_of_add_keyword [of "[]" K M0 "map_of M0"] Kf(1)
    by (simp add: M_def merged_Nil)
  from r have "r \<in> snd ` set M"
    by (auto simp: hybridChunkSearch_def Let_def S_def K_def M0_def M_def dest: in_set_takeD)
  then obtain k where "(k, r) \<in> set M" by auto
  with dM have kr: "merged (map_of M0) K k = Some r"
    by (simp add: mM [symmetric])
  show ?thesis
  proof (cases "map_of M0 k")
    case None
    with kr have "map_of (map keyword_entry K) k = Some r"
      by (simp add: merged_def)
    then have "(k, r) \<in> set (map keyword_entry K)" by (rule map_of_SomeD)
    then obtain c where c: "c \<in> set K" "k = dc_id c"
      "r = \<lparr>sc_chunk = c, sc_similarity = None, sc_score = 0.5\<rparr>"
      by (auto simp: keyword_entry_def)
    have "c \<notin> fst ` set S"
    proof
      assume "c \<in> fst ` set S"
      then obtain s where "(c, s) \<in> set S" by auto
      then have "dc_id c \<in> fst ` set (map semantic_entry S)"
        by (force simp: semantic_entry_def)
      then have "map_of (map semantic_entry S) (dc_id c) \<noteq> None"
        by (simp add: map_of_eq_None_iff)
      with None c(2) m0 show False by simp
    qed
    with c Kf(2) show ?thesis
      by (auto simp: S_def [symmetric] K_def [symmetric])
  next
    case (Some r0)
    then have "map_of (map semantic_entry S) k = Some r0"
      by (simp add: m0)
    then have "(k, r0) \<in> set (map semantic_entry S)"
      by (rule map_of_SomeD)
    then obtain c s where cs: "(c, s) \<in> set S" "k = dc_id c"
      "r0 = \<lparr>sc_chunk = c, sc_similarity = Some s, sc_score = s\<rparr>"
      by (auto simp: semantic_entry_def)
    from Sf2 [OF cs(1)] have c_all: "c \<in> set allChunks" and s: "s = similarity_of q c"
      by simp_all
    have inK: "k \<in> dc_id ` set K \<longleftrightarrow> c \<in> set K"
    proof
      assume "k \<in> dc_id ` set K"
      then obtain c' where c': "c' \<in> set K" "dc_id c' = dc_id c" by (auto simp: cs(2))
      with Kf(2) have "c' \<in> set allChunks" by auto
      with inj c_all c'(2) have "c' = c" by (auto dest: inj_onD)
      with c'(1) show "c \<in> set K" by simp
    next
      assume "c \<in> set K"
      then show "k \<in> dc_id ` set K" by (simp add: cs(2))
    qed
    from kr Some have "r = (if k \<in> dc_id ` set K then r0\<lparr>sc_score := sc_score r0 + 0.3\<rparr> else r0)"
      by (simp add: merged_def)
    then have rc: "sc_chunk r = c"
      and rs: "sc_score r = s + (if c \<in> set K then 0.3 else 0)"
      by (simp_all add: cs(3) inK)
    have "c \<in> fst ` set S" using cs(1) by force
    with rc rs c_all s show ?thesis
      by (simp add: S_def [symmetric] K_def [symmetric])
  qed
qed

lemma sqrt25: "sqrt 25 = 5"
  by (rule real_sqrt_unique) simp_all

lemma simA: "similarity_of [1, 0] chunkA = 4 / 5"
  by (simp add: similarity_of_def chunkA_def cosine_similarity_def sqrt25)

lemma simB: "similarity_of [1, 0] chunkB = 3 / 5"
  by (simp add: similarity_of_def chunkB_def cosine_similarity_def sqrt25)

lemma qk: "ragSearch_extractKeywords (js ''funny cats'') = [js ''funny'', js ''cats'']"
  by (simp add: ragSearch_extractKeywords_def js_def toLowerCase_def lower_unit_def
      replace_non_word_def is_word_char_def is_ws_def split_ws_def uniq_def ragSearch_stopWords_def)

lemma kmA: "\<not> keyword_match [js ''funny'', js ''cats''] chunkA"
  by (simp add: keyword_match_def chunkA_def js_def toLowerCase_def lower_unit_def)

lemma kmB: "keyword_match [js ''funny'', js ''cats''] chunkB"
  by (simp add: keyword_match_def chunkB_def js_def toLowerCase_def lower_unit_def)

lemma example_hybrid:
  "hybridChunkSearch [1, 0] (js ''funny cats'') [chunkA, chunkB] 10 =
   [\<lparr>sc_chunk = chunkB, sc_similarity = Some (3 / 5), sc_score = 9 / 10\<rparr>,
    \<lparr>sc_chunk = chunkA, sc_similarity = Some (4 / 5), sc_score = 4 / 5\<rparr>]"
proof -
  have ne: "dc_id chunkA \<noteq> dc_id chunkB" "dc_id chunkA = ''A''" "dc_id chunkB = ''B''"
    by (simp_all add: chunkA_def chunkB_def)
  show ?thesis
    by (simp add: hybridChunkSearch_def resultsWithSimilarity_def keywordResults_def qk kmA kmB
        simA simB add_semantic_def add_keyword_def ne Let_def)
qed

text \<open>
  C4 as stated fails. In \<open>hybridChunkSearch\<close> chunk B (semantic 0.60, keyword match, two
  query words in its preview) scores 0.60 + 0.3 = 0.90, not 1.10: the function has no
  boost for hits in the preview. B still ranks above A, which scores 0.80.
\<close>

theorem video_search_counterexample:
  "map (\<lambda>r. (dc_id (sc_chunk r), sc_score r))
     (hybridChunkSearch [1, 0] (js ''funny cats'') [chunkA, chunkB] 10) =
     [(''B'', 9 / 10), (''A'', 4 / 5)] \<and>
   sc_score (hd (hybridChunkSearch [1, 0] (js ''funny cats'') [chunkA, chunkB] 10)) \<noteq> 11 / 10 \<and>
   str_includes (toLowerCase (dc_text_preview chunkB)) (js ''funny'') \<and>
   str_includes (toLowerCase (dc_text_preview chunkB)) (js ''cats'')"
  by (simp add: example_hybrid)
    (simp add: chunkA_def chunkB_def js_def toLowerCase_def lower_unit_def)

text \<open>
  C4 as amended. Where the chunk ids are distinct (and the embeddings are vectors of the
  query's dimension that are not all zero, so that the similarity is a number): every
  result of the video search is a chunk of the video whose final score is its cosine
  similarity, plus 0.3 if it keyword-matches, when it is in the semantic top set, and is
  the base 0.5 when it is keyword-only; nothing is added for keyword hits inside the
  preview. In particular a chunk with semantic 0.60, two preview keyword hits and a
  keyword match scores 0.60 + 0.3 = 0.90 and ranks above a chunk with semantic 0.80 and
  no keyword hit.
\<close>

theorem video_search_scores:
  "distinct (map dc_id allChunks) \<Longrightarrow> embeddings_ok queryEmbedding allChunks \<Longrightarrow>
   (\<forall>r \<in> set (hybridChunkSearch queryEmbedding query allChunks topK).
      sc_chunk r \<in> set allChunks \<and>
      (if sc_chunk r \<in> fst ` set (resultsWithSimilarity queryEmbedding allChunks topK)
       then sc_score r = similarity_of queryEmbedding (sc_chunk r) +
              (if sc_chunk r \<in> set (keywordResults (ragSearch_extractKeywords query) allChunks)
               then 0.3 else 0)
       else sc_chunk r \<in> set (keywordResults (ragSearch_extractKeywords query) allChunks) \<and>
            sc_score r = 0.5)) \<and>
   map (\<lambda>r. (dc_id (sc_chunk r), sc_score r))
     (hybridChunkSearch [1, 0] (js ''funny cats'') [chunkA, chunkB] 10) =
     [(''B'', 9 / 10), (''A'', 4 / 5)]"
proof -
  assume d: "distinct (map dc_id allChunks)"
  have "map (\<lambda>r. (dc_id (sc_chunk r), sc_score r))
     (hybridChunkSearch [1, 0] (js ''funny cats'') [chunkA, chunkB] 10) =
     [(''B'', 9 / 10), (''A'', 4 / 5)]"
    by (simp add: example_hybrid) (simp add: chunkA_def chunkB_def)
  with hybrid_entry [OF d] show ?thesis
    by blast
qed

theorem video_search_scores_witness:
  "distinct (map dc_id [chunkA, chunkB]) \<and> embeddings_ok [1, 0] [chunkA, chunkB] \<and>
   hybridChunkSearch [1, 0] (js ''funny cats'') [chunkA, chunkB] 10 =
     [\<lparr>sc_chunk = chunkB, sc_similarity = Some (3 / 5), sc_score = 9 / 10\<rparr>,
      \<lparr>sc_chunk = chunkA, sc_similarity = Some (4 / 5), sc_score = 4 / 5\<rparr>] \<and>
   chunkB \<in> fst ` set (resultsWithSimilarity [1, 0] [chunkA, chunkB] 10) \<and>
   chunkB \<in> set (keywordResults (ragSearch_extractKeywords (js ''funny cats'')) [chunkA, chunkB]) \<and>
   sc_score \<lparr>sc_chunk = chunkB, sc_similarity = Some (3 / 5), sc_score = 9 / 10\<rparr> =
     similarity_of [1, 0] chunkB + 0.3"
proof -
  let ?rB = "\<lparr>sc_chunk = chunkB, sc_similarity = Some (3 / 5), sc_score = 9 / 10\<rparr>"
  have d: "distinct (map dc_id [chunkA, chunkB])"
    by (simp add: chunkA_def chunkB_def)
  have ok: "embeddings_ok [1, 0] [chunkA, chunkB]"
    by (simp add: embeddings_ok_def chunkA_def chunkB_def)
  have top: "chunkB \<in> fst ` set (resultsWithSimilarity [1, 0] [chunkA, chunkB] 10)"
    by (simp add: resultsWithSimilarity_def simA simB)
  have kw: "chunkB \<in> set (keywordResults (ragSearch_extractKeywords (js ''funny cats''))
      [chunkA, chunkB])"
    by (simp add: keywordResults_def qk kmA kmB)
  have "?rB \<in> set (hybridChunkSearch [1, 0] (js ''funny cats'') [chunkA, chunkB] 10)"
    by (simp add: example_hybrid)
  with video_search_scores [OF d ok, of "js ''funny cats''" 10]
  have "if sc_chunk ?rB \<in> fst ` set (resultsWithSimilarity [1, 0] [chunkA, chunkB] 10)
       then sc_score ?rB = similarity_of [1, 0] (sc_chunk ?rB) +
              (if sc_chunk ?rB \<in> set (keywordResults (ragSearch_extractKeywords (js ''funny cats''))
                  [chunkA, chunkB]) then 0.3 else 0)
       else sc_chunk ?rB \<in> set (keywordResults (ragSearch_extractKeywords (js ''funny cats''))
                  [chunkA, chunkB]) \<and> sc_score ?rB = 0.5"
    by blast
  with top kw have "sc_score ?rB = similarity_of [1, 0] chunkB + 0.3"
    by simp
  with d ok top kw example_hybrid show ?thesis by blast
qed

end
